theory Spec2Isabelle
  imports Complex_Main
begin

section \<open>JavaScript strings\<close>

text \<open>
  A JavaScript string is modelled as a \<^typ>\<open>string\<close> whose characters are the code units
  0 to 255 (the Latin-1 range). On that range \<open>String.prototype.trim\<close> removes the
  characters TAB, LF, VT, FF, CR, SPACE and NBSP from both ends, and
  \<open>String.prototype.toLowerCase\<close> maps A to Z and the accented capitals 0xC0 to 0xDE
  (the multiplication sign 0xD7 apart) to the character 32 places further on.
\<close>

definition isWhiteSpace :: "char \<Rightarrow> bool" where
  "isWhiteSpace c = (of_char c \<in> {9, 10, 11, 12, 13, 32, 160 :: nat})"

definition trim :: "string \<Rightarrow> string" where
  "trim s = rev (dropWhile isWhiteSpace (rev (dropWhile isWhiteSpace s)))"

definition lowerChar :: "char \<Rightarrow> char" where
  "lowerChar c =
     (let n = (of_char c :: nat)
      in if (65 \<le> n \<and> n \<le> 90) \<or> (192 \<le> n \<and> n \<le> 222 \<and> n \<noteq> 215)
         then char_of (n + 32) else c)"

definition toLowerCase :: "string \<Rightarrow> string" where
  "toLowerCase s = map lowerChar s"

text \<open>\<open>s.includes(t)\<close>: \<open>t\<close> occurs in \<open>s\<close> as a contiguous run of characters.\<close>

fun includesStr :: "string \<Rightarrow> string \<Rightarrow> bool" where
  "includesStr [] t = (t = [])"
| "includesStr (c # s) t = (take (length t) (c # s) = t \<or> includesStr s t)"

text \<open>\<open>s.split(c)\<close> for a one-character separator: never the empty list.\<close>

fun split :: "char \<Rightarrow> string \<Rightarrow> string list" where
  "split c [] = [[]]"
| "split c (x # xs) =
     (if x = c then [] # split c xs
      else (case split c xs of p # ps \<Rightarrow> (x # p) # ps | [] \<Rightarrow> [[x]]))"

text \<open>\<open>String(n)\<close> for an integer: its decimal digits, with a minus sign when negative.\<close>

definition isDigit :: "char \<Rightarrow> bool" where
  "isDigit c = (48 \<le> (of_char c :: nat) \<and> (of_char c :: nat) \<le> 57)"

definition digitChar :: "nat \<Rightarrow> char" where
  "digitChar n = char_of (48 + n)"

fun showNat :: "nat \<Rightarrow> string" where
  "showNat n = (if n < 10 then [digitChar n] else showNat (n div 10) @ [digitChar (n mod 10)])"

declare showNat.simps [simp del]

definition showInt :: "int \<Rightarrow> string" where
  "showInt i = (if i < 0 then CHR ''-'' # showNat (nat (- i)) else showNat (nat i))"

text \<open>\<open>s.padStart(2, '0')\<close>.\<close>

definition padStart2 :: "string \<Rightarrow> string" where
  "padStart2 s = replicate (2 - length s) CHR ''0'' @ s"

text \<open>
  \<open>parseInt(s)\<close> with no radix: leading white space is skipped, then a sign, then
  \<open>0x\<close> or \<open>0X\<close> selects base 16; the value is that of the longest run of digits of
  the base, and \<open>NaN\<close>, here \<open>None\<close>, when there is no digit.
\<close>

definition digitValue :: "nat \<Rightarrow> char \<Rightarrow> nat option" where
  "digitValue radix c =
     (let n = (of_char c :: nat);
          v = (if 48 \<le> n \<and> n \<le> 57 then n - 48
               else if 97 \<le> n \<and> n \<le> 122 then n - 87
               else if 65 \<le> n \<and> n \<le> 90 then n - 55
               else 36)
      in if v < radix then Some v else None)"

fun digitsValue :: "nat \<Rightarrow> nat \<Rightarrow> string \<Rightarrow> nat" where
  "digitsValue radix acc [] = acc"
| "digitsValue radix acc (c # cs) =
     (case digitValue radix c of
        None \<Rightarrow> acc
      | Some v \<Rightarrow> digitsValue radix (acc * radix + v) cs)"

definition parseDigits :: "nat \<Rightarrow> string \<Rightarrow> nat option" where
  "parseDigits radix s =
     (case s of
        [] \<Rightarrow> None
      | c # cs \<Rightarrow> (case digitValue radix c of
                     None \<Rightarrow> None
                   | Some v \<Rightarrow> Some (digitsValue radix 0 s)))"

definition parseUnsigned :: "string \<Rightarrow> nat option" where
  "parseUnsigned s =
     (case s of
        c0 # x # rest \<Rightarrow>
          if c0 = CHR ''0'' \<and> (x = CHR ''x'' \<or> x = CHR ''X'') then parseDigits 16 rest
          else parseDigits 10 s
      | _ \<Rightarrow> parseDigits 10 s)"

definition parseInt :: "string \<Rightarrow> int option" where
  "parseInt s =
     (case dropWhile isWhiteSpace s of
        [] \<Rightarrow> None
      | c # cs \<Rightarrow>
          if c = CHR ''-'' then map_option (\<lambda>n. - int n) (parseUnsigned cs)
          else if c = CHR ''+'' then map_option int (parseUnsigned cs)
          else map_option int (parseUnsigned (c # cs)))"

text \<open>\<open>a % b\<close> on integers: the remainder has the sign of \<open>a\<close>.\<close>

definition jsRem :: "int \<Rightarrow> int \<Rightarrow> int" where
  "jsRem a b = (if a < 0 then - ((- a) mod \<bar>b\<bar>) else a mod \<bar>b\<bar>)"

text \<open>\<open>Math.round(x)\<close>: the nearest integer, a half rounded up.\<close>

definition mathRound :: "rat \<Rightarrow> int" where
  "mathRound x = \<lfloor>x + 1 / 2\<rfloor>"

text \<open>
  Numbers are doubles. The model holds a double as the rational number it is, and a
  number written in decimal, in a file or in the program, is the double nearest to it.
  \<open>roundDouble x\<close> is that double: \<open>x\<close> rounded to 53 binary digits, a tie to the
  even one, with the exponent \<open>exponentOf\<close> of \<open>x\<close> and not below the exponent -1022 of
  the subnormal numbers. There is no infinity and no \<open>NaN\<close> among the rationals: the
  model is that of the code for results below \<open>2 ^ 1024\<close>. \<open>x * y\<close> and \<open>x + y\<close> in the
  code are \<open>fmul x y\<close> and \<open>fadd x y\<close>, the exact result rounded; on integers below
  \<open>2 ^ 53\<close> they are exact, and there the model uses \<open>int\<close>.
\<close>

function bitLength :: "int \<Rightarrow> int" where
  "bitLength n = (if n \<le> 0 then 0 else 1 + bitLength (n div 2))"
  by pat_completeness auto
termination
  by (relation "measure nat") auto

declare bitLength.simps [simp del]

definition pow2 :: "int \<Rightarrow> rat" where
  "pow2 e = (if 0 \<le> e then 2 ^ nat e else 1 / 2 ^ nat (- e))"

text \<open>The exponent \<open>e\<close> of a positive number \<open>a\<close>: \<open>2 ^ e \<le> a < 2 ^ (e + 1)\<close>.\<close>

definition exponentOf :: "rat \<Rightarrow> int" where
  "exponentOf a =
     (case quotient_of a of (p, q) \<Rightarrow>
        (let k = bitLength p - bitLength q
         in if pow2 k \<le> a then k else k - 1))"

definition roundHalfEven :: "rat \<Rightarrow> int" where
  "roundHalfEven y =
     (let f = \<lfloor>y\<rfloor>; r = y - of_int f
      in if r < 1 / 2 then f
         else if 1 / 2 < r then f + 1
         else if even f then f else f + 1)"

definition roundDouble :: "rat \<Rightarrow> rat" where
  "roundDouble x =
     (if x = 0 then 0
      else (let a = \<bar>x\<bar>;
                u = pow2 (max (exponentOf a) (- 1022) - 52)
            in sgn x * (of_int (roundHalfEven (a / u)) * u)))"

definition fmul :: "rat \<Rightarrow> rat \<Rightarrow> rat" where
  "fmul x y = roundDouble (x * y)"

definition fadd :: "rat \<Rightarrow> rat \<Rightarrow> rat" where
  "fadd x y = roundDouble (x + y)"

text \<open>
  The parts of the runtime that the model takes as given: what \<open>new Date(s)\<close> makes
  of a string that is not in a form the code handles itself. \<open>localDate s\<close> is the
  local year, month (1 to 12) and day of \<open>new Date(s)\<close>, or \<open>None\<close> for an invalid
  date; \<open>localTime s\<close> is \<open>new Date(s).toTimeString().slice(0, 5)\<close>; \<open>timeValue s\<close>
  is the time value of \<open>new Date(`1970-01-01T${s}:00`)\<close>, or \<open>None\<close> when that is
  \<open>NaN\<close>.
\<close>

record runtime =
  localDate :: "string \<Rightarrow> (int \<times> nat \<times> nat) option"
  localTime :: "string \<Rightarrow> string"
  timeValue :: "string \<Rightarrow> int option"

section \<open>The API client: duplicate lookup by subject\<close>

text \<open>
  A work package as the client reads it from the remote system: its \<open>id\<close> and its
  \<open>subject\<close>, which may be missing (\<open>wp.subject || ''\<close>).
\<close>

record work_package =
  wp_id :: nat
  wp_subject :: "string option"

definition subjectOrEmpty :: "work_package \<Rightarrow> string" where
  "subjectOrEmpty wp = (case wp_subject wp of None \<Rightarrow> [] | Some s \<Rightarrow> s)"

text \<open>
  \<open>findMatchingWorkPackage(workPackages, normalizedSubject)\<close>: the first work package of
  the page whose trimmed, lower-cased subject is the normalized subject. The branch
  for a partial match (one subject includes the other) only writes to the console and
  goes on to the next work package.
\<close>

fun findMatchingWorkPackage :: "work_package list \<Rightarrow> string \<Rightarrow> work_package option" where
  "findMatchingWorkPackage [] normalizedSubject = None"
| "findMatchingWorkPackage (wp # workPackages) normalizedSubject =
     (let wpSubject = toLowerCase (trim (subjectOrEmpty wp))
      in if wpSubject = normalizedSubject then Some wp
         else findMatchingWorkPackage workPackages normalizedSubject)"

text \<open>\<open>shouldFetchNextPage(projectId, offset, pageSize, currentPageCount)\<close>.\<close>

definition shouldFetchNextPage :: "nat \<Rightarrow> nat \<Rightarrow> nat \<Rightarrow> nat \<Rightarrow> bool" where
  "shouldFetchNextPage projectId offset pageSize currentPageCount =
     (if currentPageCount < pageSize then False else True)"

section \<open>The remote tracking system\<close>

text \<open>
  The remote system is not part of the repository; the client reaches it through
  \<open>_makeRequest\<close> only. It is modelled as a store: the work packages with the project
  each belongs to, in the order the listing returns them, the time entries, the
  requests received so far, and a table of \<open>outages\<close> that says which requests
  (counted from 0) are answered with an HTTP error and with which text. A page of a listing is
  the slice \<open>(offset - 1) * pageSize ..< offset * pageSize\<close> of the project's work
  packages; a creation request appends the new object under a fresh id. Of a request
  and of an object only the parts that the modelled code reads are kept: the comment,
  activity, type and status of a posted object are left out.
\<close>

record time_entry =
  te_id :: nat
  spentOn :: string
  te_hours :: rat
  workPackageHref :: "string option"

datatype request =
    GetWorkPackages nat nat nat
  | GetTimeEntries
  | PostWorkPackage nat string
  | PostTimeEntry string rat string

text \<open>
  The errors the modelled code throws, one constructor for each \<open>throw new Error(...)\<close>
  with the values its message is built from: \<open>HttpError\<close> is thrown by \<open>_makeRequest\<close>
  for a response that is not ok, \<open>TypeError\<close> by the runtime for a property read on
  \<open>null\<close>.
\<close>

datatype error =
    HttpError string
  | InvalidHours "rat option"
  | InvalidTimeValue string
  | MissingDate string
  | NoProjectMapping string
  | ProjectMappingNotFound string
  | TypeError string

text \<open>The lines the modelled code writes with \<open>console.warn\<close> and \<open>console.error\<close>.\<close>

datatype console_line =
    CouldNotCheckExistingWorkPackages error
  | ErrorCheckingExistingTimeEntries error
  | ErrorCheckingForDuplicates string error

record world =
  work_packages :: "(nat \<times> work_package) list"
  time_entries :: "time_entry list"
  next_id :: nat
  requests :: "request list"
  outages :: "(nat \<times> string) list"
  console :: "console_line list"

definition outage :: "world \<Rightarrow> nat \<Rightarrow> string option" where
  "outage w i = map_of (outages w) i"

definition projectWorkPackages :: "world \<Rightarrow> nat \<Rightarrow> work_package list" where
  "projectWorkPackages w projectId = map snd (filter (\<lambda>p. fst p = projectId) (work_packages w))"

definition listWorkPackages :: "nat \<Rightarrow> nat \<Rightarrow> nat \<Rightarrow> world \<Rightarrow> work_package list option \<times> world" where
  "listWorkPackages projectId pageSize offset w =
     (Some (take pageSize (drop ((offset - 1) * pageSize) (projectWorkPackages w projectId))), w)"

definition listTimeEntries :: "world \<Rightarrow> time_entry list option \<times> world" where
  "listTimeEntries w = (Some (time_entries w), w)"

definition storeWorkPackage :: "nat \<Rightarrow> string \<Rightarrow> world \<Rightarrow> work_package \<times> world" where
  "storeWorkPackage projectId subject' w =
     (let wp = \<lparr>wp_id = next_id w, wp_subject = Some subject'\<rparr>
      in (wp, w\<lparr>work_packages := work_packages w @ [(projectId, wp)], next_id := Suc (next_id w)\<rparr>))"

definition storeTimeEntry :: "string \<Rightarrow> rat \<Rightarrow> string \<Rightarrow> world \<Rightarrow> time_entry \<times> world" where
  "storeTimeEntry date' hours' href w =
     (let te = \<lparr>te_id = next_id w, spentOn = date', te_hours = hours', workPackageHref = Some href\<rparr>
      in (te, w\<lparr>time_entries := time_entries w @ [te], next_id := Suc (next_id w)\<rparr>))"

text \<open>
  \<open>_makeRequest(endpoint, options)\<close>: the request reaches the remote system, whose
  \<open>handler\<close> answers it, or, during an outage, the response is not ok and an error is
  thrown.
\<close>

definition makeRequest ::
  "request \<Rightarrow> (world \<Rightarrow> 'a \<times> world) \<Rightarrow> world \<Rightarrow> (error + 'a) \<times> world" where
  "makeRequest rq handler w =
     (let w' = w\<lparr>requests := requests w @ [rq]\<rparr>
      in case outage w (length (requests w)) of
           Some text \<Rightarrow> (Inl (HttpError text), w')
         | None \<Rightarrow> (case handler w' of (r, w'') \<Rightarrow> (Inr r, w'')))"

text \<open>
  \<open>fetchWorkPackagesPage(projectId, offset, pageSize)\<close>: the elements of the page, or
  \<open>null\<close> when the response has no \<open>_embedded.elements\<close>.
\<close>

definition fetchWorkPackagesPage ::
  "nat \<Rightarrow> nat \<Rightarrow> nat \<Rightarrow> world \<Rightarrow> (error + work_package list option) \<times> world" where
  "fetchWorkPackagesPage projectId offset pageSize w =
     makeRequest (GetWorkPackages projectId pageSize offset)
       (listWorkPackages projectId pageSize offset) w"

text \<open>
  The \<open>while (true)\<close> loop of \<open>checkExistingWorkPackageBySubject\<close>, from the page
  \<open>offset\<close> on, with \<open>pageSize = 100\<close>. It returns the match (\<open>return match\<close>), no
  match (\<open>break\<close>) or the error a page request threw; it is defined without a
  termination argument, so that not returning is the value \<open>None\<close>.
\<close>

partial_function (option) searchPages ::
  "nat \<Rightarrow> string \<Rightarrow> nat \<Rightarrow> world \<Rightarrow> ((error + work_package option) \<times> world) option" where
  "searchPages projectId normalizedSubject offset w =
     (case fetchWorkPackagesPage projectId offset 100 w of
        (Inl e, w') \<Rightarrow> Some (Inl e, w')
      | (Inr None, w') \<Rightarrow> Some (Inr None, w')
      | (Inr (Some workPackages), w') \<Rightarrow>
          if length workPackages = 0 then Some (Inr None, w')
          else (case findMatchingWorkPackage workPackages normalizedSubject of
                  Some match \<Rightarrow> Some (Inr (Some match), w')
                | None \<Rightarrow>
                    if shouldFetchNextPage projectId offset 100 (length workPackages)
                    then searchPages projectId normalizedSubject (offset + 1) w'
                    else Some (Inr None, w')))"

declare searchPages.simps [code]

text \<open>
  \<open>checkExistingWorkPackageBySubject(projectId, subject)\<close>: the search from page 1 for
  the trimmed, lower-cased subject; an error thrown inside is caught, written to the
  console, and \<open>null\<close> is returned.
\<close>

definition checkExistingWorkPackageBySubject ::
  "nat \<Rightarrow> string \<Rightarrow> world \<Rightarrow> (work_package option \<times> world) option" where
  "checkExistingWorkPackageBySubject projectId subject w =
     (case searchPages projectId (toLowerCase (trim subject)) 1 w of
        None \<Rightarrow> None
      | Some (Inl e, w') \<Rightarrow>
          Some (None, w'\<lparr>console := console w' @ [CouldNotCheckExistingWorkPackages e]\<rparr>)
      | Some (Inr found, w') \<Rightarrow> Some (found, w'))"


section \<open>The API client: work packages and time entries\<close>

text \<open>The pattern \<open>/^\d{4}-\d{2}-\d{2}$/\<close>.\<close>

definition isIsoDate :: "string \<Rightarrow> bool" where
  "isIsoDate s =
     (case s of
        [y1, y2, y3, y4, d1, m1, m2, d2, a1, a2] \<Rightarrow>
          isDigit y1 \<and> isDigit y2 \<and> isDigit y3 \<and> isDigit y4 \<and> d1 = CHR ''-''
          \<and> isDigit m1 \<and> isDigit m2 \<and> d2 = CHR ''-'' \<and> isDigit a1 \<and> isDigit a2
      | _ \<Rightarrow> False)"

text \<open>The year, month and day of a date object as \<open>`${year}-${month}-${day}`\<close>, month and day padded.\<close>

definition formatYmd :: "int \<times> nat \<times> nat \<Rightarrow> string" where
  "formatYmd ymd =
     (case ymd of (year, month, day) \<Rightarrow>
        showInt year @ ''-'' @ padStart2 (showNat month) @ ''-'' @ padStart2 (showNat day))"

text \<open>
  \<open>formatDateForComparison(date)\<close>; an invalid date object gives \<open>NaN\<close> for each of
  its parts.
\<close>

definition formatDateForComparison :: "runtime \<Rightarrow> string \<Rightarrow> string" where
  "formatDateForComparison rt date' =
     (if isIsoDate date' then date'
      else (case localDate rt date' of
              None \<Rightarrow> ''NaN-NaN-NaN''
            | Some ymd \<Rightarrow> formatYmd ymd))"

text \<open>
  \<open>parseAndFormatDate(date)\<close>: the \<open>Invalid date\<close> error thrown inside is caught and
  thrown again as \<open>Invalid time value for date\<close>.
\<close>

definition parseAndFormatDate :: "runtime \<Rightarrow> string \<Rightarrow> error + string" where
  "parseAndFormatDate rt date' =
     (if CHR ''T'' \<in> set date' then Inr (hd (split CHR ''T'' date'))
      else if isIsoDate date' then Inr date'
      else (case localDate rt date' of
              None \<Rightarrow> Inl (InvalidTimeValue date')
            | Some ymd \<Rightarrow> Inr (formatYmd ymd)))"

text \<open>\<open>validateHours(hours)\<close>; \<open>None\<close> is an \<open>hours\<close> that is \<open>undefined\<close>.\<close>

definition validateHours :: "rat option \<Rightarrow> error + rat" where
  "validateHours hours' =
     (case hours' of
        None \<Rightarrow> Inl (InvalidHours None)
      | Some h \<Rightarrow> if h \<le> 0 then Inl (InvalidHours (Some h)) else Inr h)"

text \<open>
  \<open>checkExistingTimeEntries(workPackageId, date, activityName)\<close>: the time entries of
  the listing whose \<open>spentOn\<close> is the date and whose work package link ends in the
  id; an error is caught, written to the console, and no entries are returned.
\<close>

definition entryWorkPackageId :: "time_entry \<Rightarrow> string option" where
  "entryWorkPackageId entry =
     (case workPackageHref entry of None \<Rightarrow> None | Some href \<Rightarrow> Some (last (split CHR ''/'' href)))"

definition checkExistingTimeEntries ::
  "runtime \<Rightarrow> nat \<Rightarrow> string \<Rightarrow> world \<Rightarrow> time_entry list \<times> world" where
  "checkExistingTimeEntries rt workPackageId date' w =
     (case makeRequest GetTimeEntries listTimeEntries w of
        (Inl e, w') \<Rightarrow> ([], w'\<lparr>console := console w' @ [ErrorCheckingExistingTimeEntries e]\<rparr>)
      | (Inr elements, w') \<Rightarrow>
          (let timeEntries = (case elements of None \<Rightarrow> [] | Some es \<Rightarrow> es);
               targetDate = formatDateForComparison rt date'
           in (filter (\<lambda>entry. spentOn entry = targetDate
                         \<and> entryWorkPackageId entry = Some (showNat workPackageId)) timeEntries,
               w')))"

text \<open>
  \<open>createWorkPackage(projectId, subject, ...)\<close>: the lookup first; the creation request
  only when the lookup returned \<open>null\<close>.
\<close>

definition createWorkPackage ::
  "nat \<Rightarrow> string \<Rightarrow> world \<Rightarrow> ((error + work_package) \<times> world) option" where
  "createWorkPackage projectId subject' w =
     (case checkExistingWorkPackageBySubject projectId subject' w of
        None \<Rightarrow> None
      | Some (Some existing, w') \<Rightarrow> Some (Inr existing, w')
      | Some (None, w') \<Rightarrow>
          Some (makeRequest (PostWorkPackage projectId subject')
                  (storeWorkPackage projectId subject') w'))"

text \<open>\<open>createTimeEntry(workPackageId, date, startTime, hours, activityName, comment)\<close>.\<close>

definition createTimeEntry ::
  "runtime \<Rightarrow> nat \<Rightarrow> string \<Rightarrow> rat option \<Rightarrow> world \<Rightarrow> (error + time_entry) \<times> world" where
  "createTimeEntry rt workPackageId date' hours' w =
     (case parseAndFormatDate rt date' of
        Inl e \<Rightarrow> (Inl e, w)
      | Inr formattedDate \<Rightarrow>
          (case validateHours hours' of
             Inl e \<Rightarrow> (Inl e, w)
           | Inr h \<Rightarrow>
               (let href = ''/api/v3/work_packages/'' @ showNat workPackageId
                in makeRequest (PostTimeEntry formattedDate h href)
                     (storeTimeEntry formattedDate h href) w)))"

section \<open>Work-log entries\<close>

text \<open>
  An entry as the parser produces it and the service extends it. A field that may be
  \<open>null\<close> or absent is an option; \<open>truthy x\<close> is the number \<open>x\<close> when JavaScript
  takes it for true (neither \<open>null\<close> nor 0), \<open>present x\<close> says that it does, \<open>orElse\<close> and \<open>orZero\<close> are \<open>a || b\<close> and \<open>a || 0\<close> on numbers,
  \<open>orElseStr\<close> is \<open>a || b\<close> on strings.
\<close>

record entry =
  project :: string
  subject :: string
  activity :: string
  work_package_id :: "nat option"
  existing_work_package_id :: "nat option"
  project_id :: nat
  hours :: "rat option"
  duration_hours :: "rat option"
  break_hours :: "rat option"
  is_scrum :: bool
  entry_date :: "string option"
  date :: "string option"
  start_time :: "string option"
  calculated_start_time :: "string option"
  calculated_end_time :: "string option"
  user_set_start_time :: bool

definition truthy :: "nat option \<Rightarrow> nat option" where
  "truthy x = (case x of None \<Rightarrow> None | Some n \<Rightarrow> if n = 0 then None else Some n)"

definition present :: "nat option \<Rightarrow> bool" where
  "present x = (truthy x \<noteq> None)"

definition orElse :: "rat option \<Rightarrow> rat option \<Rightarrow> rat option" where
  "orElse a b = (case a of None \<Rightarrow> b | Some x \<Rightarrow> if x = 0 then b else Some x)"

definition orZero :: "rat option \<Rightarrow> rat" where
  "orZero a = (case a of None \<Rightarrow> 0 | Some x \<Rightarrow> x)"

definition orElseStr :: "string option \<Rightarrow> string option \<Rightarrow> string option" where
  "orElseStr a b = (case a of None \<Rightarrow> b | Some x \<Rightarrow> if x = [] then b else Some x)"

section \<open>The API client: processing a list of entries\<close>

datatype status =
    using_existing_work_package
  | reused_existing_work_package
  | created_work_package
  | skipped_duplicate_time_entry
  | created_time_entry
  | status_error

record detail =
  d_index :: nat
  d_project :: string
  d_subject :: string
  d_hours :: "rat option"
  d_activity :: string
  d_status :: "status option"
  d_work_package_id :: "nat option"
  d_existing_time_entries :: "nat option"
  d_time_entry_id :: "nat option"
  d_error :: "error option"

record run_results =
  successful :: nat
  failed :: nat
  details :: "detail list"

definition createEntryDetail :: "entry \<Rightarrow> nat \<Rightarrow> detail" where
  "createEntryDetail e index =
     \<lparr>d_index = index + 1, d_project = project e, d_subject = subject e, d_hours = hours e,
      d_activity = activity e, d_status = None, d_work_package_id = None,
      d_existing_time_entries = None, d_time_entry_id = None, d_error = None\<rparr>"

text \<open>\<open>ensureWorkPackageExists(entry, detail)\<close>: the id of the work package and the detail.\<close>

definition ensureWorkPackageExists ::
  "entry \<Rightarrow> detail \<Rightarrow> world \<Rightarrow> ((error + (nat \<times> detail)) \<times> world) option" where
  "ensureWorkPackageExists e d w =
     (case truthy (work_package_id e) of
        Some workPackageId \<Rightarrow>
          Some (Inr (workPackageId,
                     d\<lparr>d_status := Some using_existing_work_package,
                       d_work_package_id := work_package_id e\<rparr>), w)
      | None \<Rightarrow>
          (case checkExistingWorkPackageBySubject (project_id e) (subject e) w of
             None \<Rightarrow> None
           | Some (Some existing, w') \<Rightarrow>
               Some (Inr (wp_id existing,
                          d\<lparr>d_status := Some reused_existing_work_package,
                            d_work_package_id := Some (wp_id existing)\<rparr>), w')
           | Some (None, w') \<Rightarrow>
               (case createWorkPackage (project_id e) (subject e) w' of
                  None \<Rightarrow> None
                | Some (Inl err, w'') \<Rightarrow> Some (Inl err, w'')
                | Some (Inr workPackage, w'') \<Rightarrow>
                    Some (Inr (wp_id workPackage,
                               d\<lparr>d_status := Some created_work_package,
                                 d_work_package_id := Some (wp_id workPackage)\<rparr>), w''))))"

text \<open>\<open>addTimeEntry(workPackageId, entry, date, detail, results)\<close>.\<close>

definition addTimeEntry ::
  "runtime \<Rightarrow> nat \<Rightarrow> entry \<Rightarrow> string \<Rightarrow> detail \<Rightarrow> run_results \<Rightarrow> world
     \<Rightarrow> (error + (detail \<times> run_results)) \<times> world" where
  "addTimeEntry rt workPackageId e date' d results w =
     (case checkExistingTimeEntries rt workPackageId date' w of
        (existingTimeEntries, w') \<Rightarrow>
          if length existingTimeEntries > 0
          then (Inr (d\<lparr>d_status := Some skipped_duplicate_time_entry,
                       d_existing_time_entries := Some (length existingTimeEntries)\<rparr>,
                     results\<lparr>successful := successful results + 1\<rparr>), w')
          else (case createTimeEntry rt workPackageId date' (hours e) w' of
                  (Inl err, w'') \<Rightarrow> (Inl err, w'')
                | (Inr timeEntry, w'') \<Rightarrow>
                    (Inr (d\<lparr>d_time_entry_id := Some (te_id timeEntry),
                            d_status := Some created_time_entry\<rparr>,
                          results\<lparr>successful := successful results + 1\<rparr>), w'')))"

definition handleEntryError :: "detail \<Rightarrow> error \<Rightarrow> run_results \<Rightarrow> detail \<times> run_results" where
  "handleEntryError d err results =
     (d\<lparr>d_status := Some status_error, d_error := Some err\<rparr>,
      results\<lparr>failed := failed results + 1\<rparr>)"

text \<open>
  The \<open>try\<close> block of \<open>processWorkLogEntry\<close>, with no progress callback: it ends
  with the detail and the results updated, or with the error thrown and the detail as
  it was when the error was thrown.
\<close>

definition tryProcessWorkLogEntry ::
  "runtime \<Rightarrow> entry \<Rightarrow> string \<Rightarrow> detail \<Rightarrow> run_results \<Rightarrow> world
     \<Rightarrow> (((error \<times> detail) + (detail \<times> run_results)) \<times> world) option" where
  "tryProcessWorkLogEntry rt e date' d results w =
     (case ensureWorkPackageExists e d w of
        None \<Rightarrow> None
      | Some (Inl err, w') \<Rightarrow> Some (Inl (err, d), w')
      | Some (Inr (workPackageId, d1), w') \<Rightarrow>
          (case addTimeEntry rt workPackageId e date' d1 results w' of
             (Inl err, w'') \<Rightarrow> Some (Inl (err, d1), w'')
           | (Inr (d2, results'), w'') \<Rightarrow> Some (Inr (d2, results'), w'')))"

text \<open>
  \<open>processWorkLogEntry(entry, index, date, progressCallback, results, total)\<close>: the
  \<open>try\<close> block, its \<open>catch\<close>, and the detail pushed onto \<open>results.details\<close> either way.
\<close>

definition processWorkLogEntry ::
  "runtime \<Rightarrow> entry \<Rightarrow> nat \<Rightarrow> string \<Rightarrow> run_results \<Rightarrow> world \<Rightarrow> (run_results \<times> world) option" where
  "processWorkLogEntry rt e index date' results w =
     (case tryProcessWorkLogEntry rt e date' (createEntryDetail e index) results w of
        None \<Rightarrow> None
      | Some (Inl (err, d1), w') \<Rightarrow>
          (case handleEntryError d1 err results of
             (d', results') \<Rightarrow> Some (results'\<lparr>details := details results' @ [d']\<rparr>, w'))
      | Some (Inr (d2, results'), w') \<Rightarrow>
          Some (results'\<lparr>details := details results' @ [d2]\<rparr>, w'))"

text \<open>The \<open>for\<close> loop of \<open>processWorkLogEntries\<close>, from the index \<open>i\<close> on.\<close>

fun processWorkLogEntriesFrom ::
  "runtime \<Rightarrow> entry list \<Rightarrow> nat \<Rightarrow> string \<Rightarrow> run_results \<Rightarrow> world \<Rightarrow> (run_results \<times> world) option" where
  "processWorkLogEntriesFrom rt [] i date' results w = Some (results, w)"
| "processWorkLogEntriesFrom rt (e # es) i date' results w =
     (case processWorkLogEntry rt e i date' results w of
        None \<Rightarrow> None
      | Some (results', w') \<Rightarrow> processWorkLogEntriesFrom rt es (i + 1) date' results' w')"

definition processWorkLogEntries ::
  "runtime \<Rightarrow> entry list \<Rightarrow> string \<Rightarrow> world \<Rightarrow> (run_results \<times> world) option" where
  "processWorkLogEntries rt workLogEntries date' w =
     processWorkLogEntriesFrom rt workLogEntries 0 date'
       \<lparr>successful = 0, failed = 0, details = []\<rparr> w"


section \<open>The work-log service: categorization\<close>

text \<open>
  The state of the service that the modelled methods read: the project mappings of the
  configuration, the entries of the uploaded file and the analysis, \<open>null\<close> until
  \<open>performWorkPackageAnalysis\<close> has run.
\<close>

record analysis =
  scrum :: "entry list"
  existing :: "entry list"
  new :: "entry list"
  existingWorkPackages :: "entry list"
  duplicates :: "(entry \<times> string option) list"

record service =
  PROJECT_MAPPINGS :: "(string \<times> nat) list"
  workLogEntries :: "entry list"
  analysisData :: "analysis option"

text \<open>
  \<open>handleDuplicateEntry\<close> sets \<open>existing_work_package_id\<close> on the entry itself and
  pushes a copy with the subject of the work package found; \<open>handleNewEntry\<close> pushes
  the entry onto \<open>new\<close>.
\<close>

definition handleDuplicateEntry :: "entry \<Rightarrow> work_package \<Rightarrow> analysis \<Rightarrow> entry \<times> analysis" where
  "handleDuplicateEntry e existingWp analysisResult =
     (let e' = e\<lparr>existing_work_package_id := Some (wp_id existingWp)\<rparr>
      in (e', analysisResult\<lparr>duplicates := duplicates analysisResult @ [(e', wp_subject existingWp)]\<rparr>))"

definition handleNewEntry :: "entry \<Rightarrow> analysis \<Rightarrow> entry \<times> analysis" where
  "handleNewEntry e analysisResult = (e, analysisResult\<lparr>new := new analysisResult @ [e]\<rparr>)"

text \<open>
  \<open>checkForDuplicatesOrNew(entry, analysisResult)\<close>. The lookup catches the errors of
  its page requests itself and returns \<open>null\<close>, so the \<open>catch\<close> of this method, which
  also adds the entry to \<open>new\<close>, has nothing to catch in the model.
\<close>

definition checkForDuplicatesOrNew ::
  "service \<Rightarrow> entry \<Rightarrow> analysis \<Rightarrow> world \<Rightarrow> ((error + (entry \<times> analysis)) \<times> world) option" where
  "checkForDuplicatesOrNew svc e analysisResult w =
     (case truthy (map_of (PROJECT_MAPPINGS svc) (project e)) of
        None \<Rightarrow> Some (Inl (ProjectMappingNotFound (project e)), w)
      | Some projectId \<Rightarrow>
          (case checkExistingWorkPackageBySubject projectId (subject e) w of
             None \<Rightarrow> None
           | Some (Some existingWp, w') \<Rightarrow> Some (Inr (handleDuplicateEntry e existingWp analysisResult), w')
           | Some (None, w') \<Rightarrow> Some (Inr (handleNewEntry e analysisResult), w')))"

definition categorizeEntry ::
  "service \<Rightarrow> entry \<Rightarrow> analysis \<Rightarrow> world \<Rightarrow> ((error + (entry \<times> analysis)) \<times> world) option" where
  "categorizeEntry svc e analysisResult w =
     (if is_scrum e \<and> present (work_package_id e)
      then Some (Inr (e, analysisResult\<lparr>scrum := scrum analysisResult @ [e]\<rparr>), w)
      else if present (work_package_id e)
      then Some (Inr (e, analysisResult\<lparr>existing := existing analysisResult @ [e]\<rparr>), w)
      else checkForDuplicatesOrNew svc e analysisResult w)"

section \<open>The work-log service: processing\<close>

text \<open>
  The result of processing one entry: its \<open>type\<close> and, for a new work package, the
  \<open>workPackageId\<close>; the message text is left out.
\<close>

datatype result_type = TypeScrum | TypeExisting | TypeDuplicate | TypeFoundExisting | TypeNew

record result =
  r_type :: result_type
  r_workPackageId :: "nat option"

text \<open>\<open>{ success: true, entry, result }\<close> or \<open>{ success: false, entry, error }\<close>.\<close>

record tracked =
  success :: bool
  t_entry :: entry
  t_result :: "result option"
  t_error :: "error option"

record stats =
  s_createdCount :: nat
  s_updatedCount :: nat
  s_errorCount :: nat

record processing_result =
  results :: "tracked list"
  createdCount :: nat
  updatedCount :: nat
  successCount :: nat
  errorCount :: nat
  totalEntries :: nat

text \<open>
  \<open>enrichEntryMetadata(entry, commentData)\<close> reads \<open>this.analysisData.new\<close>, which
  throws while the analysis is \<open>null\<close>; the status it copies onto the entry belongs
  to the parts of a posted work package that the model leaves out.
\<close>

definition enrichEntryMetadata :: "service \<Rightarrow> entry \<Rightarrow> error + entry" where
  "enrichEntryMetadata svc e =
     (case analysisData svc of None \<Rightarrow> Inl (TypeError ''new'') | Some a \<Rightarrow> Inr e)"

definition duration :: "entry \<Rightarrow> rat" where
  "duration e = orZero (orElse (duration_hours e) (hours e))"

definition processScrumTimeEntry ::
  "runtime \<Rightarrow> entry \<Rightarrow> nat \<Rightarrow> string \<Rightarrow> world \<Rightarrow> (error + result) \<times> world" where
  "processScrumTimeEntry rt e workPackageId entryDate w =
     (case createTimeEntry rt workPackageId entryDate (Some (duration e)) w of
        (Inl err, w') \<Rightarrow> (Inl err, w')
      | (Inr te, w') \<Rightarrow> (Inr \<lparr>r_type = TypeScrum, r_workPackageId = None\<rparr>, w'))"

definition processExistingWorkPackage ::
  "runtime \<Rightarrow> entry \<Rightarrow> string \<Rightarrow> world \<Rightarrow> (error + result) \<times> world" where
  "processExistingWorkPackage rt e entryDate w =
     (case createTimeEntry rt (case existing_work_package_id e of Some n \<Rightarrow> n | None \<Rightarrow> 0)
             entryDate (Some (duration e)) w of
        (Inl err, w') \<Rightarrow> (Inl err, w')
      | (Inr te, w') \<Rightarrow> (Inr \<lparr>r_type = TypeExisting, r_workPackageId = None\<rparr>, w'))"

definition processDuplicateWorkPackage ::
  "runtime \<Rightarrow> entry \<Rightarrow> nat \<Rightarrow> string \<Rightarrow> world \<Rightarrow> (error + result) \<times> world" where
  "processDuplicateWorkPackage rt e workPackageId entryDate w =
     (case createTimeEntry rt workPackageId entryDate (Some (duration e)) w of
        (Inl err, w') \<Rightarrow> (Inl err, w')
      | (Inr te, w') \<Rightarrow> (Inr \<lparr>r_type = TypeDuplicate, r_workPackageId = None\<rparr>, w'))"

text \<open>\<open>getProjectId(projectName)\<close>.\<close>

definition getProjectId :: "service \<Rightarrow> string \<Rightarrow> error + nat" where
  "getProjectId svc projectName =
     (case truthy (map_of (PROJECT_MAPPINGS svc) (projectName @ ''_PROJECT'')) of
        Some projectId \<Rightarrow> Inr projectId
      | None \<Rightarrow>
          (case truthy (map_of (PROJECT_MAPPINGS svc) projectName) of
             Some projectId \<Rightarrow> Inr projectId
           | None \<Rightarrow> Inl (NoProjectMapping projectName)))"

definition processFoundExistingWorkPackage ::
  "runtime \<Rightarrow> entry \<Rightarrow> work_package \<Rightarrow> string \<Rightarrow> world \<Rightarrow> (error + result) \<times> world" where
  "processFoundExistingWorkPackage rt e existingWorkPackage entryDate w =
     (case createTimeEntry rt (wp_id existingWorkPackage) entryDate (Some (duration e)) w of
        (Inl err, w') \<Rightarrow> (Inl err, w')
      | (Inr te, w') \<Rightarrow> (Inr \<lparr>r_type = TypeFoundExisting, r_workPackageId = None\<rparr>, w'))"

definition createNewWorkPackageWithTime ::
  "runtime \<Rightarrow> entry \<Rightarrow> nat \<Rightarrow> string \<Rightarrow> world \<Rightarrow> ((error + result) \<times> world) option" where
  "createNewWorkPackageWithTime rt e projectId entryDate w =
     (case createWorkPackage projectId (subject e) w of
        None \<Rightarrow> None
      | Some (Inl err, w') \<Rightarrow> Some (Inl err, w')
      | Some (Inr workPackage, w') \<Rightarrow>
          (case createTimeEntry rt (wp_id workPackage) entryDate (Some (duration e)) w' of
             (Inl err, w'') \<Rightarrow> Some (Inl err, w'')
           | (Inr te, w'') \<Rightarrow>
               Some (Inr \<lparr>r_type = TypeNew, r_workPackageId = Some (wp_id workPackage)\<rparr>, w'')))"

definition processNewWorkPackage ::
  "service \<Rightarrow> runtime \<Rightarrow> entry \<Rightarrow> string \<Rightarrow> world \<Rightarrow> ((error + result) \<times> world) option" where
  "processNewWorkPackage svc rt e entryDate w =
     (case getProjectId svc (project e) of
        Inl err \<Rightarrow> Some (Inl err, w)
      | Inr projectId \<Rightarrow>
          (case checkExistingWorkPackageBySubject projectId (subject e) w of
             None \<Rightarrow> None
           | Some (Some existingWorkPackage, w') \<Rightarrow>
               Some (processFoundExistingWorkPackage rt e existingWorkPackage entryDate w')
           | Some (None, w') \<Rightarrow> createNewWorkPackageWithTime rt e projectId entryDate w'))"

text \<open>\<open>processEntry(entry, commentData)\<close>.\<close>

definition processEntry ::
  "service \<Rightarrow> runtime \<Rightarrow> entry \<Rightarrow> world \<Rightarrow> ((error + result) \<times> world) option" where
  "processEntry svc rt e w =
     (let workPackageId = (case truthy (work_package_id e) of
                             Some n \<Rightarrow> Some n
                           | None \<Rightarrow> existing_work_package_id e)
      in case orElseStr (entry_date e) (date e) of
           None \<Rightarrow> Some (Inl (MissingDate (subject e)), w)
         | Some entryDate \<Rightarrow>
             (case enrichEntryMetadata svc e of
                Inl err \<Rightarrow> Some (Inl err, w)
              | Inr e' \<Rightarrow>
                  if is_scrum e' \<and> present workPackageId
                  then Some (processScrumTimeEntry rt e'
                               (case workPackageId of Some n \<Rightarrow> n | None \<Rightarrow> 0) entryDate w)
                  else if present (existing_work_package_id e')
                  then Some (processExistingWorkPackage rt e' entryDate w)
                  else if present (work_package_id e')
                  then Some (processDuplicateWorkPackage rt e'
                               (case workPackageId of Some n \<Rightarrow> n | None \<Rightarrow> 0) entryDate w)
                  else processNewWorkPackage svc rt e' entryDate w))"

definition updateStats :: "result_type \<Rightarrow> stats \<Rightarrow> stats" where
  "updateStats resultType st =
     (if resultType = TypeNew then st\<lparr>s_createdCount := s_createdCount st + 1\<rparr>
      else st\<lparr>s_updatedCount := s_updatedCount st + 1\<rparr>)"

text \<open>\<open>processAndTrackEntry(entry, commentData, results, stats)\<close>: the \<open>try\<close> and its \<open>catch\<close>.\<close>

definition processAndTrackEntry ::
  "service \<Rightarrow> runtime \<Rightarrow> entry \<Rightarrow> tracked list \<times> stats \<Rightarrow> world
     \<Rightarrow> ((tracked list \<times> stats) \<times> world) option" where
  "processAndTrackEntry svc rt e acc w =
     (case acc of (results', st) \<Rightarrow>
        (case processEntry svc rt e w of
           None \<Rightarrow> None
         | Some (Inr r, w') \<Rightarrow>
             Some ((results' @ [\<lparr>success = True, t_entry = e, t_result = Some r, t_error = None\<rparr>],
                    updateStats (r_type r) st), w')
         | Some (Inl err, w') \<Rightarrow>
             Some ((results' @ [\<lparr>success = False, t_entry = e, t_result = None, t_error = Some err\<rparr>],
                    st\<lparr>s_errorCount := s_errorCount st + 1\<rparr>), w')))"

definition buildProcessingResult :: "tracked list \<Rightarrow> stats \<Rightarrow> nat \<Rightarrow> processing_result" where
  "buildProcessingResult results' st totalEntries' =
     \<lparr>results = results', createdCount = s_createdCount st, updatedCount = s_updatedCount st,
      successCount = s_createdCount st + s_updatedCount st, errorCount = s_errorCount st,
      totalEntries = totalEntries'\<rparr>"

text \<open>The \<open>for\<close> loop of \<open>processAllEntries\<close> over the entries that remain.\<close>

fun processEntriesLoop ::
  "service \<Rightarrow> runtime \<Rightarrow> entry list \<Rightarrow> tracked list \<times> stats \<Rightarrow> world
     \<Rightarrow> ((tracked list \<times> stats) \<times> world) option" where
  "processEntriesLoop svc rt [] acc w = Some (acc, w)"
| "processEntriesLoop svc rt (e # es) acc w =
     (case processAndTrackEntry svc rt e acc w of
        None \<Rightarrow> None
      | Some (acc', w') \<Rightarrow> processEntriesLoop svc rt es acc' w')"

text \<open>\<open>processAllEntries(commentData, progressCallback)\<close> with no progress callback.\<close>

definition processAllEntries ::
  "service \<Rightarrow> runtime \<Rightarrow> world \<Rightarrow> (processing_result \<times> world) option" where
  "processAllEntries svc rt w =
     (case processEntriesLoop svc rt (workLogEntries svc)
             ([], \<lparr>s_createdCount = 0, s_updatedCount = 0, s_errorCount = 0\<rparr>) w of
        None \<Rightarrow> None
      | Some ((results', st), w') \<Rightarrow>
          Some (buildProcessingResult results' st (length (workLogEntries svc)), w'))"


section \<open>The work-log service: start and end times\<close>

text \<open>
  \<open>addHoursToTime(timeString, hours)\<close>. A time string or number that JavaScript takes
  for false (\<open>null\<close>, the empty string, 0) returns the time string as it is. The
  \<open>try\<close> of the code has nothing to catch on strings. \<open>hours * 60\<close> is the product of
  doubles; the hours, the minutes and their sums are integers, exact in the code while
  they are below \<open>2 ^ 53\<close>.
\<close>

definition addHoursToTime :: "runtime \<Rightarrow> string option \<Rightarrow> rat \<Rightarrow> string option" where
  "addHoursToTime rt timeString hours' =
     (case timeString of
        None \<Rightarrow> None
      | Some ts \<Rightarrow>
          if ts = [] \<or> hours' = 0 then timeString
          else
            (let cleanTimeString = (if CHR ''T'' \<in> set ts then localTime rt ts else ts);
                 parts = split CHR '':'' cleanTimeString;
                 hourStr = hd parts;
                 minuteStr = (if length parts < 2 then None else Some (parts ! 1));
                 startHour = (case parseInt hourStr of None \<Rightarrow> 0 | Some n \<Rightarrow> n);
                 startMinute =
                   (case minuteStr of
                      None \<Rightarrow> 0
                    | Some m \<Rightarrow> if m = [] then 0
                               else (case parseInt m of None \<Rightarrow> 0 | Some n \<Rightarrow> n));
                 additionalMinutes = mathRound (fmul hours' 60);
                 totalMinutes = startHour * 60 + startMinute + additionalMinutes;
                 newHours = totalMinutes div 60;
                 newMinutes = jsRem totalMinutes 60;
                 finalHours = jsRem newHours 24
             in Some (padStart2 (showInt finalHours) @ '':'' @ padStart2 (showInt newMinutes))))"

text \<open>The pattern \<open>/^\d{1,2}:\d{2}$/\<close> and \<open>extractTimeFromString(timeString)\<close>.\<close>

definition isClockTime :: "string \<Rightarrow> bool" where
  "isClockTime s =
     (case s of
        [h1, c, m1, m2] \<Rightarrow> isDigit h1 \<and> c = CHR '':'' \<and> isDigit m1 \<and> isDigit m2
      | [h1, h2, c, m1, m2] \<Rightarrow>
          isDigit h1 \<and> isDigit h2 \<and> c = CHR '':'' \<and> isDigit m1 \<and> isDigit m2
      | _ \<Rightarrow> False)"

definition extractTimeFromString :: "runtime \<Rightarrow> string option \<Rightarrow> string option" where
  "extractTimeFromString rt timeString =
     (case timeString of
        None \<Rightarrow> None
      | Some ts \<Rightarrow>
          if ts = [] then None
          else if CHR ''T'' \<in> set ts then Some (localTime rt ts)
          else if isClockTime ts then Some ts
          else None)"

text \<open>The validation issues that the time calculation reports.\<close>

datatype validation_issue =
    MissingWorkPackageId entry
  | TimeOverlap entry "string option" "string option"

definition entryHours :: "entry \<Rightarrow> rat" where
  "entryHours e = orZero (orElse (hours e) (duration_hours e))"

text \<open>
  \<open>processScrumEntry(entry, validationIssues)\<close>: 10:00 is the start only of an entry
  that has no calculated start yet.
\<close>

definition processScrumEntry ::
  "runtime \<Rightarrow> entry \<Rightarrow> validation_issue list \<Rightarrow> entry \<times> validation_issue list" where
  "processScrumEntry rt e validationIssues =
     (let issues' = (if present (work_package_id e) then validationIssues
                     else validationIssues @ [MissingWorkPackageId e]);
          start = (case orElseStr (calculated_start_time e) None of
                     None \<Rightarrow> Some ''10:00''
                   | Some t \<Rightarrow> Some t)
      in (e\<lparr>calculated_start_time := start,
            calculated_end_time := addHoursToTime rt start (entryHours e)\<rparr>, issues'))"

text \<open>
  \<open>findPreviousNonScrumEntry(entries, currentIndex)\<close>: the loop runs down from
  \<open>currentIndex - 1\<close>; \<open>currentIndex\<close> is an index of the array.
\<close>

fun findPreviousNonScrumEntry :: "entry list \<Rightarrow> nat \<Rightarrow> entry option" where
  "findPreviousNonScrumEntry entries 0 = None"
| "findPreviousNonScrumEntry entries (Suc i) =
     (if \<not> is_scrum (entries ! i) then Some (entries ! i)
      else findPreviousNonScrumEntry entries i)"

definition getFirstNonScrumStartTime :: "runtime \<Rightarrow> entry \<Rightarrow> string option" where
  "getFirstNonScrumStartTime rt e =
     (case orElseStr (calculated_start_time e) None of
        Some t \<Rightarrow> Some t
      | None \<Rightarrow>
          if \<not> user_set_start_time e then None
          else (case orElseStr (extractTimeFromString rt (start_time e)) None of
                  Some t \<Rightarrow> Some t
                | None \<Rightarrow> Some ''09:00''))"

definition getSubsequentStartTime :: "runtime \<Rightarrow> entry \<Rightarrow> entry list \<Rightarrow> nat \<Rightarrow> string option" where
  "getSubsequentStartTime rt e sortedEntries index =
     (let breakHours = orZero (break_hours e)
      in case findPreviousNonScrumEntry sortedEntries index of
           None \<Rightarrow> None
         | Some previousEntry \<Rightarrow> addHoursToTime rt (calculated_end_time previousEntry) breakHours)"

definition calculateEntryStartTime ::
  "runtime \<Rightarrow> entry \<Rightarrow> entry list \<Rightarrow> nat \<Rightarrow> bool \<Rightarrow> string option" where
  "calculateEntryStartTime rt e sortedEntries index isFirstNonScrum =
     (if isFirstNonScrum then getFirstNonScrumStartTime rt e
      else getSubsequentStartTime rt e sortedEntries index)"

text \<open>
  \<open>checkTimeOverlap(entry, sortedEntries, index, currentTime, validationIssues)\<close>;
  a comparison with \<open>NaN\<close> is false.
\<close>

definition checkTimeOverlap ::
  "runtime \<Rightarrow> entry \<Rightarrow> entry list \<Rightarrow> nat \<Rightarrow> string option \<Rightarrow> validation_issue list
     \<Rightarrow> validation_issue list" where
  "checkTimeOverlap rt e sortedEntries index currentTime validationIssues =
     (case findPreviousNonScrumEntry sortedEntries index of
        None \<Rightarrow> validationIssues
      | Some prevEntry \<Rightarrow>
          (case orElseStr (calculated_end_time prevEntry) None of
             None \<Rightarrow> validationIssues
           | Some prevEnd \<Rightarrow>
               (case (timeValue rt (case currentTime of None \<Rightarrow> ''null'' | Some t \<Rightarrow> t),
                      timeValue rt prevEnd) of
                  (Some currentStartTime, Some prevEndTime) \<Rightarrow>
                    if currentStartTime < prevEndTime
                    then validationIssues @ [TimeOverlap e currentTime (calculated_end_time prevEntry)]
                    else validationIssues
                | _ \<Rightarrow> validationIssues)))"

text \<open>
  \<open>setEntryTimes(entry, currentTime, sortedEntries, index, validationIssues)\<close>;
  \<open>validateEntryTimes\<close>, which it calls, only writes to the console.
\<close>

definition setEntryTimes ::
  "runtime \<Rightarrow> entry \<Rightarrow> string option \<Rightarrow> entry list \<Rightarrow> nat \<Rightarrow> validation_issue list
     \<Rightarrow> entry \<times> validation_issue list" where
  "setEntryTimes rt e currentTime sortedEntries index validationIssues =
     (let e' = e\<lparr>calculated_start_time := currentTime,
                  calculated_end_time := addHoursToTime rt currentTime (entryHours e)\<rparr>
      in (e', checkTimeOverlap rt e' sortedEntries index currentTime validationIssues))"

text \<open>
  The body of the \<open>forEach\<close> of \<open>processDateEntries\<close> at one index. Its state is the
  array, whose entries the code changes in place, \<open>currentTime\<close>, \<open>isFirstNonScrum\<close>
  and the validation issues.
\<close>

definition processDateEntriesStep ::
  "runtime \<Rightarrow> entry list \<times> string option \<times> bool \<times> validation_issue list \<Rightarrow> nat
     \<Rightarrow> entry list \<times> string option \<times> bool \<times> validation_issue list" where
  "processDateEntriesStep rt state index =
     (case state of (sortedEntries, currentTime, isFirstNonScrum, validationIssues) \<Rightarrow>
        (let e = sortedEntries ! index
         in if is_scrum e
            then (case processScrumEntry rt e validationIssues of
                    (e', issues') \<Rightarrow>
                      (sortedEntries[index := e'], currentTime, isFirstNonScrum, issues'))
            else (case setEntryTimes rt e
                         (calculateEntryStartTime rt e sortedEntries index isFirstNonScrum)
                         sortedEntries index validationIssues of
                    (e', issues') \<Rightarrow>
                      (sortedEntries[index := e'], calculated_end_time e', False, issues'))))"

text \<open>\<open>processDateEntries(sortedEntries, validationIssues)\<close>: the entries and the issues after the loop.\<close>

definition processDateEntries ::
  "runtime \<Rightarrow> entry list \<Rightarrow> validation_issue list \<Rightarrow> entry list \<times> validation_issue list" where
  "processDateEntries rt sortedEntries validationIssues =
     (case foldl (processDateEntriesStep rt) (sortedEntries, None, True, validationIssues)
             [0..<length sortedEntries] of
        (entries', currentTime, isFirstNonScrum, issues') \<Rightarrow> (entries', issues'))"

section \<open>The parser: the entries of a date\<close>

text \<open>
  The local clock of the runtime. Time values are milliseconds since the epoch, as
  \<open>Date.prototype.getTime\<close> gives them. \<open>now\<close> is the time value of \<open>new Date()\<close>, and
  \<open>setHours z t h\<close> is the time value of a date of time value \<open>t\<close> after
  \<open>setHours(h, 0, 0, 0)\<close>: the hour \<open>h\<close> of the same local day.
\<close>

record zone =
  now :: int
  setHours :: "int \<Rightarrow> nat \<Rightarrow> int"

text \<open>
  An entry of the work-log file as \<open>JSON.parse\<close> gives it, with the types of the file
  format: strings for \<open>project\<close>, \<open>subject\<close>, \<open>description\<close> and \<open>activity\<close>, numbers for
  \<open>duration_hours\<close> and \<open>break_hours\<close>, an integer for \<open>work_package_id\<close>, a boolean for
  \<open>is_scrum\<close>. \<open>None\<close> is a field that is absent or \<open>null\<close>.
\<close>

record entry_data =
  raw_project :: "string option"
  raw_subject :: "string option"
  raw_description :: "string option"
  raw_activity :: "string option"
  raw_work_package_id :: "int option"
  raw_is_scrum :: "bool option"
  raw_duration_hours :: "rat option"
  raw_break_hours :: "rat option"

text \<open>
  The entry that \<open>parseJsonTaskEntry\<close> returns. \<open>start_time\<close> and \<open>end_time\<close> are ISO
  strings in the code, written by \<open>toISOString\<close> and read back by \<open>new Date\<close>; the model
  keeps their time values.
\<close>

record parsed_entry =
  p_project :: string
  p_work_package_id :: "int option"
  p_project_id :: "nat option"
  p_subject :: string
  p_activity :: string
  p_start_time :: int
  p_end_time :: int
  p_hours :: rat
  p_break_minutes :: int
  p_break_hours :: rat
  p_is_scrum :: bool
  p_entry_date :: string

datatype field_error =
    MissingRequiredField string
  | InvalidProject string
  | InvalidSubject
  | InvalidDurationHours
  | InvalidBreakHours
  | InvalidWorkPackageId

text \<open>
  \<open>validateRequiredFields\<close>: a required field that is absent and one that is \<open>null\<close> are
  both an error; the model does not tell the two messages apart.
\<close>

definition validateRequiredFields :: "entry_data \<Rightarrow> field_error list" where
  "validateRequiredFields entryData =
     (if raw_project entryData = None then [MissingRequiredField ''project''] else [])
     @ (if raw_subject entryData = None then [MissingRequiredField ''subject''] else [])
     @ (if raw_duration_hours entryData = None then [MissingRequiredField ''duration_hours''] else [])
     @ (if raw_activity entryData = None then [MissingRequiredField ''activity''] else [])
     @ (if raw_is_scrum entryData = None then [MissingRequiredField ''is_scrum''] else [])"

text \<open>
  The property names that every object inherits from \<open>Object.prototype\<close>: the operator
  \<open>in\<close> finds them in the project mappings too.
\<close>

definition objectPrototypeKeys :: "string list" where
  "objectPrototypeKeys =
     [''constructor'', ''__defineGetter__'', ''__defineSetter__'', ''hasOwnProperty'',
      ''__lookupGetter__'', ''__lookupSetter__'', ''isPrototypeOf'', ''propertyIsEnumerable'',
      ''toString'', ''valueOf'', ''__proto__'', ''toLocaleString'']"

definition validateProjectMapping ::
  "(string \<times> nat) list option \<Rightarrow> entry_data \<Rightarrow> field_error list" where
  "validateProjectMapping projectMappings entryData =
     (case (orElseStr (raw_project entryData) None, projectMappings) of
        (Some p, Some m) \<Rightarrow>
          if p \<in> set (map fst m) \<or> p \<in> set objectPrototypeKeys then [] else [InvalidProject p]
      | _ \<Rightarrow> [])"

text \<open>
  \<open>validateFieldTypes\<close>. With the types of the file format the \<open>typeof\<close> tests hold, and
  \<open>parseFloat\<close> and \<open>parseInt\<close> return the number they are given.
\<close>

definition validateFieldTypes :: "entry_data \<Rightarrow> field_error list" where
  "validateFieldTypes entryData =
     (case raw_subject entryData of
        None \<Rightarrow> []
      | Some s \<Rightarrow> if trim s = [] then [InvalidSubject] else [])
     @ (case raw_duration_hours entryData of
          None \<Rightarrow> []
        | Some d \<Rightarrow> if d \<le> 0 then [InvalidDurationHours] else [])
     @ (case raw_break_hours entryData of
          None \<Rightarrow> []
        | Some b \<Rightarrow> if b < 0 then [InvalidBreakHours] else [])
     @ (case raw_work_package_id entryData of
          None \<Rightarrow> []
        | Some n \<Rightarrow> if n \<le> 0 then [InvalidWorkPackageId] else [])"

definition validateEntryData ::
  "(string \<times> nat) list option \<Rightarrow> entry_data \<Rightarrow> field_error list" where
  "validateEntryData projectMappings entryData =
     validateRequiredFields entryData
     @ validateProjectMapping projectMappings entryData
     @ validateFieldTypes entryData"

definition parseDurationHours :: "rat option \<Rightarrow> rat" where
  "parseDurationHours durationHours = (case durationHours of None \<Rightarrow> 0 | Some d \<Rightarrow> d)"

text \<open>\<open>calculateStartTime(isScrum, startTime, breakMinutes)\<close>.\<close>

definition calculateStartTime :: "zone \<Rightarrow> bool \<Rightarrow> int \<Rightarrow> int \<Rightarrow> int" where
  "calculateStartTime z isScrum startTime breakMinutes =
     (if isScrum then setHours z startTime 10
      else startTime + breakMinutes * 60 * 1000)"

definition activityKeywords :: "(string \<times> string) list" where
  "activityKeywords =
     [(''scrum'', ''Meeting''), (''meeting'', ''Meeting''), (''session'', ''Meeting''),
      (''clarification'', ''Meeting''), (''setup'', ''Development''),
      (''enhanced'', ''Development''), (''fixed'', ''Development''), (''fix'', ''Development''),
      (''route'', ''Development''), (''linkup'', ''Development''),
      (''template'', ''Development''), (''codes'', ''Development''), (''staging'', ''Support''),
      (''server'', ''Support''), (''feedback'', ''Specification''),
      (''recruitment'', ''Specification''), (''profile'', ''Development''),
      (''view'', ''Development'')]"

definition determineActivity :: "string \<Rightarrow> string" where
  "determineActivity taskDescription =
     (case List.find (\<lambda>(keyword, a). includesStr (toLowerCase taskDescription) keyword)
             activityKeywords of
        Some (keyword, a) \<Rightarrow> a
      | None \<Rightarrow> ''Development'')"

text \<open>
  The time value of \<open>new Date(x)\<close> for a number \<open>x\<close> in the range of time values: \<open>x\<close>
  without its fraction.
\<close>

definition timeClip :: "rat \<Rightarrow> int" where
  "timeClip x = (if 0 \<le> x then \<lfloor>x\<rfloor> else \<lceil>x\<rceil>)"

text \<open>
  \<open>parseJsonTaskEntry(entryData, startTime, entryDate)\<close>; \<open>None\<close> is \<open>null\<close>. For a project
  name that the mappings only inherit, \<open>project_id\<close> is not a number in the code and
  \<open>None\<close> here.
\<close>

definition parseJsonTaskEntry ::
  "zone \<Rightarrow> (string \<times> nat) list option \<Rightarrow> entry_data \<Rightarrow> int \<Rightarrow> string \<Rightarrow> parsed_entry option" where
  "parseJsonTaskEntry z projectMappings entryData startTime entryDate =
     (case (orElseStr (raw_project entryData) None,
            orElseStr (raw_subject entryData) (raw_description entryData)) of
        (Some project', Some taskSubject) \<Rightarrow>
          (let durationHours = parseDurationHours (raw_duration_hours entryData)
           in if durationHours = 0 then None
              else
                (let isScrum = (raw_is_scrum entryData = Some True);
                     breakHours = orZero (raw_break_hours entryData);
                     breakMinutes = (if breakHours \<noteq> 0 then mathRound (fmul breakHours 60) else 0);
                     actualStartTime = calculateStartTime z isScrum startTime breakMinutes
                 in if isScrum \<and> (raw_work_package_id entryData = None
                                   \<or> raw_work_package_id entryData = Some 0)
                    then None
                    else Some
                      \<lparr>p_project = project',
                       p_work_package_id = raw_work_package_id entryData,
                       p_project_id =
                         (case projectMappings of None \<Rightarrow> None | Some m \<Rightarrow> map_of m project'),
                       p_subject = taskSubject,
                       p_activity =
                         (case orElseStr (raw_activity entryData) None of
                            Some a \<Rightarrow> a
                          | None \<Rightarrow> determineActivity taskSubject),
                       p_start_time = actualStartTime,
                       p_end_time =
                         timeClip (fadd (of_int actualStartTime)
                                     (fmul (fmul (fmul durationHours 60) 60) 1000)),
                       p_hours = durationHours,
                       p_break_minutes = breakMinutes,
                       p_break_hours = breakHours,
                       p_is_scrum = isScrum,
                       p_entry_date = entryDate\<rparr>))
      | _ \<Rightarrow> None)"

text \<open>
  \<open>processDateEntries(entries, dateStr, parsedDate)\<close> of the parser: the loop from a
  cursor \<open>currentTime\<close>, and the whole with the cursor at 9:00 of today. An entry with
  validation errors is logged and left out; the log is not modelled.
\<close>

fun processDateEntries_parser_from ::
  "zone \<Rightarrow> (string \<times> nat) list option \<Rightarrow> entry_data list \<Rightarrow> int \<Rightarrow> string \<Rightarrow> parsed_entry list" where
  "processDateEntries_parser_from z projectMappings [] currentTime parsedDate = []"
| "processDateEntries_parser_from z projectMappings (entryData # entries) currentTime parsedDate =
     (if validateEntryData projectMappings entryData \<noteq> []
      then processDateEntries_parser_from z projectMappings entries currentTime parsedDate
      else (case parseJsonTaskEntry z projectMappings entryData currentTime parsedDate of
              None \<Rightarrow> processDateEntries_parser_from z projectMappings entries currentTime parsedDate
            | Some e \<Rightarrow>
                e # processDateEntries_parser_from z projectMappings entries (p_end_time e) parsedDate))"

definition processDateEntries_parser ::
  "zone \<Rightarrow> (string \<times> nat) list option \<Rightarrow> entry_data list \<Rightarrow> string \<Rightarrow> parsed_entry list" where
  "processDateEntries_parser z projectMappings entries parsedDate =
     processDateEntries_parser_from z projectMappings entries (setHours z (now z) 9) parsedDate"

section \<open>The parser: dates\<close>

subsection \<open>The calendar of the runtime\<close>

text \<open>
  The day arithmetic of ECMAScript on day numbers, the days since 1 January 1970:
  \<open>DaysInYear\<close>, \<open>DayFromYear\<close>, \<open>YearFromTime\<close>, \<open>InLeapYear\<close>, \<open>MonthFromTime\<close>,
  \<open>DateFromTime\<close> and \<open>MakeDay\<close>. Months run from 0 to 11.
\<close>

definition daysInYear :: "int \<Rightarrow> int" where
  "daysInYear y =
     (if y mod 4 \<noteq> 0 then 365
      else if y mod 100 \<noteq> 0 then 366
      else if y mod 400 \<noteq> 0 then 365
      else 366)"

definition dayFromYear :: "int \<Rightarrow> int" where
  "dayFromYear y =
     365 * (y - 1970) + (y - 1969) div 4 - (y - 1901) div 100 + (y - 1601) div 400"

lemma daysInYear_bounds: "365 \<le> daysInYear y \<and> daysInYear y \<le> 366"
  by (simp add: daysInYear_def)

lemma div_next:
  fixes x n :: int
  assumes "1 < n"
  shows "(x + 1) div n = x div n + (if (x + 1) mod n = 0 then 1 else 0)"
proof -
  have x: "x = n * (x div n) + x mod n" by simp
  have r: "0 \<le> x mod n" "x mod n < n" using assms by simp_all
  show ?thesis
  proof (cases "x mod n = n - 1")
    case True
    have "x + 1 = n * (x div n) + x mod n + 1" using x by simp
    then have e: "x + 1 = n * (x div n + 1) + 0" using True by (simp add: algebra_simps)
    have "(x + 1) div n = x div n + 1" using e assms by (intro int_div_pos_eq[of _ n _ 0]) simp_all
    moreover have "(x + 1) mod n = 0" using e assms by (intro int_mod_pos_eq[of _ n "x div n + 1"]) simp_all
    ultimately show ?thesis by simp
  next
    case False
    then have lt: "x mod n + 1 < n" using r by simp
    have e: "x + 1 = n * (x div n) + (x mod n + 1)" using x by simp
    have "(x + 1) div n = x div n" using e r lt by (intro int_div_pos_eq[of _ n _ "x mod n + 1"]) simp_all
    moreover have "(x + 1) mod n = x mod n + 1"
      using e r lt by (intro int_mod_pos_eq[of _ n "x div n"]) simp_all
    ultimately show ?thesis using r by simp
  qed
qed

lemma dayFromYear_next: "dayFromYear (y + 1) = dayFromYear y + daysInYear y"
proof -
  have m4: "(y - 1969 + 1) mod 4 = y mod 4"
    using mod_mult_self2[of y 4 "- 492"] by simp
  have m100: "(y - 1901 + 1) mod 100 = y mod 100"
    using mod_mult_self2[of y 100 "- 19"] by simp
  have m400: "(y - 1601 + 1) mod 400 = y mod 400"
    using mod_mult_self2[of y 400 "- 4"] by simp
  have a: "(y + 1 - 1969) div 4 = (y - 1969) div 4 + (if y mod 4 = 0 then 1 else 0)"
    using div_next[of 4 "y - 1969"] m4 by (simp add: algebra_simps)
  have b: "(y + 1 - 1901) div 100 = (y - 1901) div 100 + (if y mod 100 = 0 then 1 else 0)"
    using div_next[of 100 "y - 1901"] m100 by (simp add: algebra_simps)
  have c: "(y + 1 - 1601) div 400 = (y - 1601) div 400 + (if y mod 400 = 0 then 1 else 0)"
    using div_next[of 400 "y - 1601"] m400 by (simp add: algebra_simps)
  have d: "y mod 4 = 0" if "y mod 100 = 0"
  proof -
    have "(4::int) dvd 100" by simp
    moreover have "100 dvd y" using that by (simp add: mod_eq_0_iff_dvd)
    ultimately have "4 dvd y" by (rule dvd_trans)
    then show ?thesis by (simp add: mod_eq_0_iff_dvd)
  qed
  have e: "y mod 100 = 0" if "y mod 400 = 0"
  proof -
    have "(100::int) dvd 400" by simp
    moreover have "400 dvd y" using that by (simp add: mod_eq_0_iff_dvd)
    ultimately have "100 dvd y" by (rule dvd_trans)
    then show ?thesis by (simp add: mod_eq_0_iff_dvd)
  qed
  show ?thesis
    unfolding dayFromYear_def daysInYear_def a b c using d e by auto
qed

text \<open>
  \<open>YearFromTime\<close> is the largest year that starts on the day or before it: the search goes
  up from a year that starts before the day.
\<close>

function yearFrom :: "int \<Rightarrow> int \<Rightarrow> int" where
  "yearFrom y day = (if dayFromYear (y + 1) \<le> day then yearFrom (y + 1) day else y)"
  by pat_completeness auto
termination
proof (relation "measure (\<lambda>(y, day). nat (day - dayFromYear y))")
  show "wf (measure (\<lambda>(y, day). nat (day - dayFromYear y)))" by simp
next
  fix y day :: int
  assume "dayFromYear (y + 1) \<le> day"
  then show "((y + 1, day), (y, day)) \<in> measure (\<lambda>(y, day). nat (day - dayFromYear y))"
    using dayFromYear_next[of y] daysInYear_bounds[of y] by simp
qed

declare yearFrom.simps [simp del]

definition yearFromDay :: "int \<Rightarrow> int" where
  "yearFromDay day =
     yearFrom (if 0 \<le> day then 1970 + day div 366 else 1970 + day div 365) day"

definition inLeapYear :: "int \<Rightarrow> int" where
  "inLeapYear day = (if daysInYear (yearFromDay day) = 366 then 1 else 0)"

definition dayWithinYear :: "int \<Rightarrow> int" where
  "dayWithinYear day = day - dayFromYear (yearFromDay day)"

definition monthFromDay :: "int \<Rightarrow> int" where
  "monthFromDay day =
     (let d = dayWithinYear day; l = inLeapYear day
      in if d < 31 then 0
         else if d < 59 + l then 1
         else if d < 90 + l then 2
         else if d < 120 + l then 3
         else if d < 151 + l then 4
         else if d < 181 + l then 5
         else if d < 212 + l then 6
         else if d < 243 + l then 7
         else if d < 273 + l then 8
         else if d < 304 + l then 9
         else if d < 334 + l then 10
         else 11)"

definition dateFromDay :: "int \<Rightarrow> int" where
  "dateFromDay day =
     (let d = dayWithinYear day; l = inLeapYear day; m = monthFromDay day
      in if m = 0 then d + 1
         else if m = 1 then d - 30
         else if m = 2 then d - 58 - l
         else if m = 3 then d - 89 - l
         else if m = 4 then d - 119 - l
         else if m = 5 then d - 150 - l
         else if m = 6 then d - 180 - l
         else if m = 7 then d - 211 - l
         else if m = 8 then d - 242 - l
         else if m = 9 then d - 272 - l
         else if m = 10 then d - 303 - l
         else d - 333 - l)"

text \<open>
  \<open>MakeDay(year, month, date)\<close>: the day number of the first day of the month, which
  \<open>monthStart\<close> counts within the year, plus \<open>date - 1\<close>.
\<close>

definition monthStart :: "int \<Rightarrow> int \<Rightarrow> int" where
  "monthStart mn l =
     (if mn = 0 then 0
      else if mn = 1 then 31
      else if mn = 2 then 59 + l
      else if mn = 3 then 90 + l
      else if mn = 4 then 120 + l
      else if mn = 5 then 151 + l
      else if mn = 6 then 181 + l
      else if mn = 7 then 212 + l
      else if mn = 8 then 243 + l
      else if mn = 9 then 273 + l
      else if mn = 10 then 304 + l
      else 334 + l)"

definition makeDay :: "int \<Rightarrow> int \<Rightarrow> int \<Rightarrow> int" where
  "makeDay year month date' =
     (let ym = year + month div 12;
          mn = month mod 12
      in dayFromYear ym + monthStart mn (if daysInYear ym = 366 then 1 else 0) + date' - 1)"

text \<open>
  \<open>new Date(year, month, date)\<close>, as the number of its local day: \<open>None\<close> is the invalid
  date that a \<open>NaN\<close> among the arguments gives. The local date of the object is taken to
  be the date of \<open>MakeDay\<close>, in every time zone. \<open>getFullYear\<close>, \<open>getMonth\<close> and \<open>getDate\<close>
  of the invalid date are \<open>NaN\<close>.
\<close>

definition newDate :: "int option \<Rightarrow> int option \<Rightarrow> int option \<Rightarrow> int option" where
  "newDate year month date' =
     (case (year, month, date') of
        (Some y, Some m, Some d) \<Rightarrow> Some (makeDay (if 0 \<le> y \<and> y \<le> 99 then 1900 + y else y) m d)
      | _ \<Rightarrow> None)"

definition getFullYear :: "int option \<Rightarrow> int option" where
  "getFullYear t = map_option yearFromDay t"

definition getMonth :: "int option \<Rightarrow> int option" where
  "getMonth t = map_option monthFromDay t"

definition getDate :: "int option \<Rightarrow> int option" where
  "getDate t = map_option dateFromDay t"

subsection \<open>The calendar of the specification\<close>

text \<open>A real calendar date: the months of the Gregorian calendar and their lengths.\<close>

definition isLeapYear :: "int \<Rightarrow> bool" where
  "isLeapYear y = (y mod 4 = 0 \<and> (y mod 100 \<noteq> 0 \<or> y mod 400 = 0))"

definition daysInMonth :: "int \<Rightarrow> int \<Rightarrow> int" where
  "daysInMonth y m =
     (if m = 2 then (if isLeapYear y then 29 else 28)
      else if m = 4 \<or> m = 6 \<or> m = 9 \<or> m = 11 then 30
      else 31)"

definition realDate :: "int \<Rightarrow> int \<Rightarrow> int \<Rightarrow> bool" where
  "realDate y m d = (1 \<le> m \<and> m \<le> 12 \<and> 1 \<le> d \<and> d \<le> daysInMonth y m)"


subsection \<open>Parsing a date\<close>

text \<open>
  The pattern \<open>/^(\w+)-(\d{1,2})-(\d{4})$/\<close>: neither \<open>\w\<close> nor \<open>\d\<close> matches the hyphen,
  so a string matches when its pieces between the hyphens are three: word characters, one
  or two digits, four digits. The result is the three groups.
\<close>

definition isWordChar :: "char \<Rightarrow> bool" where
  "isWordChar c =
     (let n = (of_char c :: nat)
      in (48 \<le> n \<and> n \<le> 57) \<or> (65 \<le> n \<and> n \<le> 90) \<or> n = 95 \<or> (97 \<le> n \<and> n \<le> 122))"

definition matchDatePattern :: "string \<Rightarrow> (string \<times> string \<times> string) option" where
  "matchDatePattern s =
     (case split CHR ''-'' s of
        [monthStr, day, year] \<Rightarrow>
          if monthStr \<noteq> [] \<and> list_all isWordChar monthStr
             \<and> (length day = 1 \<or> length day = 2) \<and> list_all isDigit day
             \<and> length year = 4 \<and> list_all isDigit year
          then Some (monthStr, day, year)
          else None
      | _ \<Rightarrow> None)"

text \<open>
  \<open>getMonthNames()\<close>, and the value of \<open>monthNames[key]\<close>: the number of a month name, or a
  property that the object inherits from \<open>Object.prototype\<close>, which is not a number and
  which JavaScript takes for true; \<open>None\<close> is \<open>undefined\<close>.
\<close>

definition getMonthNames :: "(string \<times> nat) list" where
  "getMonthNames =
     [(''jan'', 1), (''january'', 1), (''feb'', 2), (''february'', 2), (''mar'', 3),
      (''march'', 3), (''apr'', 4), (''april'', 4), (''may'', 5), (''jun'', 6), (''june'', 6),
      (''jul'', 7), (''july'', 7), (''aug'', 8), (''august'', 8), (''sep'', 9), (''sept'', 9),
      (''september'', 9), (''oct'', 10), (''october'', 10), (''nov'', 11), (''november'', 11),
      (''dec'', 12), (''december'', 12)]"

datatype month_value = MonthNumber nat | InheritedProperty

definition lookupMonth :: "string \<Rightarrow> month_value option" where
  "lookupMonth key =
     (case map_of getMonthNames key of
        Some n \<Rightarrow> Some (MonthNumber n)
      | None \<Rightarrow> if key \<in> set objectPrototypeKeys then Some InheritedProperty else None)"

text \<open>
  The errors of date parsing. \<open>InvalidDateValues\<close> is the error that \<open>buildDateString\<close>
  throws again, around the error of one of the two validations.
\<close>

datatype date_value_error =
    InvalidYear string
  | InvalidMonth month_value
  | InvalidDay string
  | InvalidDate string string string

datatype date_error =
    DateFormatError string
  | InvalidMonthName string
  | InvalidDateValues date_value_error

text \<open>
  \<open>validateDateComponents\<close> and \<open>validateActualDate\<close>: \<open>None\<close> when they return, the
  error when they throw. A number is \<open>None\<close> when it is \<open>NaN\<close>: every comparison with it
  is false, and it differs from every number.
\<close>

definition validateDateComponents ::
  "int option \<Rightarrow> int option \<Rightarrow> int option \<Rightarrow> string \<Rightarrow> month_value \<Rightarrow> string
     \<Rightarrow> date_value_error option" where
  "validateDateComponents yearNum monthNum dayNum year month day =
     (if (case yearNum of None \<Rightarrow> False | Some y \<Rightarrow> y < 1900 \<or> y > 3000)
      then Some (InvalidYear year)
      else if (case monthNum of None \<Rightarrow> False | Some m \<Rightarrow> m < 1 \<or> m > 12)
      then Some (InvalidMonth month)
      else if (case dayNum of None \<Rightarrow> False | Some d \<Rightarrow> d < 1 \<or> d > 31)
      then Some (InvalidDay day)
      else None)"

definition strictEquals :: "int option \<Rightarrow> int option \<Rightarrow> bool" where
  "strictEquals a b = (case (a, b) of (Some x, Some y) \<Rightarrow> x = y | _ \<Rightarrow> False)"

definition validateActualDate ::
  "int option \<Rightarrow> int option \<Rightarrow> int option \<Rightarrow> string \<Rightarrow> string \<Rightarrow> string
     \<Rightarrow> date_value_error option" where
  "validateActualDate yearNum monthNum dayNum monthStr day year =
     (let testDate = newDate yearNum (map_option (\<lambda>m. m - 1) monthNum) dayNum;
          isValidDate = (strictEquals (getFullYear testDate) yearNum
                         \<and> strictEquals (getMonth testDate) (map_option (\<lambda>m. m - 1) monthNum)
                         \<and> strictEquals (getDate testDate) dayNum)
      in if \<not> isValidDate then Some (InvalidDate monthStr day year) else None)"

text \<open>\<open>String(x)\<close> of a number.\<close>

definition showNumber :: "int option \<Rightarrow> string" where
  "showNumber x = (case x of None \<Rightarrow> ''NaN'' | Some n \<Rightarrow> showInt n)"

text \<open>
  \<open>buildDateString(year, month, day, monthStr)\<close>. \<open>parseInt(month)\<close> reads the digits of
  the number of the month, and is \<open>NaN\<close> for an inherited property.
\<close>

definition buildDateString :: "string \<Rightarrow> month_value \<Rightarrow> string \<Rightarrow> string \<Rightarrow> date_error + string" where
  "buildDateString year month day monthStr =
     (let yearNum = parseInt year;
          monthNum = (case month of MonthNumber n \<Rightarrow> parseInt (showNat n) | InheritedProperty \<Rightarrow> None);
          dayNum = parseInt day
      in case validateDateComponents yearNum monthNum dayNum year month day of
           Some e \<Rightarrow> Inl (InvalidDateValues e)
         | None \<Rightarrow>
             (case validateActualDate yearNum monthNum dayNum monthStr day year of
                Some e \<Rightarrow> Inl (InvalidDateValues e)
              | None \<Rightarrow>
                  Inr (showNumber yearNum @ ''-'' @ padStart2 (showNumber monthNum) @ ''-''
                       @ padStart2 (showNumber dayNum))))"

definition parseDateString :: "string \<Rightarrow> date_error + string" where
  "parseDateString dateStr =
     (case matchDatePattern (toLowerCase dateStr) of
        None \<Rightarrow> Inl (DateFormatError dateStr)
      | Some (monthStr, day, year) \<Rightarrow>
          (case lookupMonth (toLowerCase monthStr) of
             None \<Rightarrow> Inl (InvalidMonthName monthStr)
           | Some month \<Rightarrow> buildDateString year month day monthStr))"

section \<open>Definitions for the properties of the time chain\<close>

text \<open>
  What \<open>setEntryTimes\<close> and \<open>processScrumEntry\<close> write into an entry: the start, and the
  end that \<open>addHoursToTime\<close> computes from it.
\<close>

definition timed :: "runtime \<Rightarrow> entry \<Rightarrow> string option \<Rightarrow> entry" where
  "timed rt e start =
     e\<lparr>calculated_start_time := start,
       calculated_end_time := addHoursToTime rt start (entryHours e)\<rparr>"

text \<open>The start of a scrum entry: the one it has, and 10:00 if it has none.\<close>

definition scrumStart :: "entry \<Rightarrow> string option" where
  "scrumStart e =
     (case calculated_start_time e of
        None \<Rightarrow> Some ''10:00''
      | Some t \<Rightarrow> if t = [] then Some ''10:00'' else Some t)"

text \<open>
  The loop of \<open>processDateEntries\<close> as a recursion over the list, for the proofs: \<open>prev\<close>
  is the last entry before that is not a scrum entry, with its times, and \<open>first\<close> is
  \<open>isFirstNonScrum\<close>. Lemma \<open>processDateEntries_chain\<close> shows that the loop over the indices
  computes this list.
\<close>

fun chainFrom :: "runtime \<Rightarrow> entry option \<Rightarrow> bool \<Rightarrow> entry list \<Rightarrow> entry list" where
  "chainFrom rt prev first [] = []"
| "chainFrom rt prev first (e # es) =
     (if is_scrum e then timed rt e (scrumStart e) # chainFrom rt prev first es
      else (let e' = timed rt e
                  (if first then getFirstNonScrumStartTime rt e
                   else (case prev of
                           None \<Rightarrow> None
                         | Some p \<Rightarrow> addHoursToTime rt (calculated_end_time p) (orZero (break_hours e))))
            in e' # chainFrom rt (Some e') False es))"

definition lastNonScrum :: "entry option \<Rightarrow> entry list \<Rightarrow> entry option" where
  "lastNonScrum prev zs =
     (case List.find (\<lambda>z. \<not> is_scrum z) (rev zs) of None \<Rightarrow> prev | Some z \<Rightarrow> Some z)"

text \<open>The time string \<open>HH:MM\<close> of an hour and a minute, as \<open>addHoursToTime\<close> writes it.\<close>

definition clock :: "nat \<Rightarrow> nat \<Rightarrow> string" where
  "clock h m = padStart2 (showNat h) @ '':'' @ padStart2 (showNat m)"

text \<open>The entries of a date with their times, after \<open>processDateEntries\<close>.\<close>

definition timesOf :: "runtime \<Rightarrow> entry list \<Rightarrow> entry list" where
  "timesOf rt sortedEntries = fst (processDateEntries rt sortedEntries [])"

section \<open>Properties of the duplicate lookup\<close>

lemma find_Some:
  "findMatchingWorkPackage wps q = Some wp \<Longrightarrow>
     wp \<in> set wps \<and> toLowerCase (trim (subjectOrEmpty wp)) = q"
  by (induction wps) (auto simp: Let_def split: if_splits)

lemma find_None_iff:
  "findMatchingWorkPackage wps q = None \<longleftrightarrow>
     (\<forall>wp \<in> set wps. toLowerCase (trim (subjectOrEmpty wp)) \<noteq> q)"
  by (induction wps) (auto simp: Let_def)

lemma find_append:
  "findMatchingWorkPackage (xs @ ys) q =
     (case findMatchingWorkPackage xs q of Some wp \<Rightarrow> Some wp
      | None \<Rightarrow> findMatchingWorkPackage ys q)"
  by (induction xs) (auto simp: Let_def)

lemma outage_requests [simp]: "outage (w\<lparr>requests := r\<rparr>) = outage w"
  by (simp add: outage_def fun_eq_iff)

lemma projectWorkPackages_requests [simp]:
  "projectWorkPackages (w\<lparr>requests := r\<rparr>) p = projectWorkPackages w p"
  by (simp add: projectWorkPackages_def)

lemma fetch_eq:
  "fetchWorkPackagesPage p k s w =
     (case outage w (length (requests w)) of
        Some t \<Rightarrow> (Inl (HttpError t), w\<lparr>requests := requests w @ [GetWorkPackages p s k]\<rparr>)
      | None \<Rightarrow> (Inr (Some (take s (drop ((k - 1) * s) (projectWorkPackages w p)))),
                  w\<lparr>requests := requests w @ [GetWorkPackages p s k]\<rparr>))"
  by (simp add: fetchWorkPackagesPage_def makeRequest_def listWorkPackages_def Let_def
      split: option.splits)

lemma searchPages_run:
  assumes "1 \<le> k"
  shows "\<exists>res n. searchPages p q k w =
            Some (res, w\<lparr>requests := requests w @ map (GetWorkPackages p 100) [k..<k + n]\<rparr>)
          \<and> 1 \<le> n \<and> n \<le> length (drop ((k - 1) * 100) (projectWorkPackages w p)) div 100 + 1
          \<and> (\<forall>m. res = Inr (Some m) \<longrightarrow>
                findMatchingWorkPackage
                  (take 100 (drop ((n - 1) * 100) (drop ((k - 1) * 100) (projectWorkPackages w p)))) q = Some m
              \<and> findMatchingWorkPackage
                  (take ((n - 1) * 100) (drop ((k - 1) * 100) (projectWorkPackages w p))) q = None)
          \<and> (res = Inr None \<longrightarrow>
                length (drop ((k - 1) * 100) (projectWorkPackages w p)) < n * 100
              \<and> findMatchingWorkPackage (drop ((k - 1) * 100) (projectWorkPackages w p)) q = None)
          \<and> (\<forall>e. res = Inl e \<longrightarrow>
                (\<exists>t. outage w (length (requests w) + n - 1) = Some t \<and> e = HttpError t))
          \<and> (\<forall>i < n - 1. outage w (length (requests w) + i) = None)"
  using assms
proof (induction "length (projectWorkPackages w p) - (k - 1) * 100" arbitrary: k w rule: less_induct)
  case less
  define items where "items = projectWorkPackages w p"
  define rest where "rest = drop ((k - 1) * 100) items"
  define w1 where "w1 = w\<lparr>requests := requests w @ [GetWorkPackages p 100 k]\<rparr>"
  have up1: "map (GetWorkPackages p 100) [k..<k + 1] = [GetWorkPackages p 100 k]" by simp
  show ?case
  proof (cases "outage w (length (requests w))")
    case (Some t)
    then have "searchPages p q k w = Some (Inl (HttpError t), w1)"
      by (subst searchPages.simps) (simp add: fetch_eq w1_def)
    then show ?thesis
      using Some by (intro exI[of _ "Inl (HttpError t)"] exI[of _ 1]) (simp add: w1_def)
  next
    case None
    then have fetch: "fetchWorkPackagesPage p k 100 w = (Inr (Some (take 100 rest)), w1)"
      by (simp add: fetch_eq w1_def rest_def items_def)
    show ?thesis
    proof (cases "findMatchingWorkPackage (take 100 rest) q")
      case (Some m)
      then have ne: "take 100 rest \<noteq> []" by auto
      have "searchPages p q k w = Some (Inr (Some m), w1)"
        by (subst searchPages.simps) (use ne Some in \<open>simp add: fetch\<close>)
      then show ?thesis
        using Some by (intro exI[of _ "Inr (Some m)"] exI[of _ 1]) (simp add: w1_def rest_def items_def)
    next
      case nomatch: None
      show ?thesis
      proof (cases "length rest < 100")
        case True
        then have "searchPages p q k w = Some (Inr None, w1)"
          by (subst searchPages.simps) (use nomatch in \<open>simp add: fetch shouldFetchNextPage_def\<close>)
        moreover have "findMatchingWorkPackage rest q = None"
          using nomatch True by simp
        ultimately show ?thesis
          using True by (intro exI[of _ "Inr None"] exI[of _ 1]) (simp add: w1_def rest_def items_def)
      next
        case False
        then have full: "length (take 100 rest) = 100" by simp
        have step: "searchPages p q k w = searchPages p q (k + 1) w1"
          by (subst searchPages.simps) (use nomatch full in \<open>simp add: fetch shouldFetchNextPage_def\<close>)
        have len: "100 \<le> length items - (k - 1) * 100"
          using False by (simp add: rest_def)
        have dec: "length (projectWorkPackages w1 p) - (k + 1 - 1) * 100
                     < length (projectWorkPackages w p) - (k - 1) * 100"
          using len less.prems by (simp add: w1_def items_def algebra_simps) 
        have rest': "drop ((k + 1 - 1) * 100) (projectWorkPackages w1 p) = drop 100 rest"
          using less.prems by (simp add: w1_def rest_def items_def algebra_simps)
        have k1: "1 \<le> k + 1" by simp
        from less.hyps[OF dec k1] obtain res n where
          run: "searchPages p q (k + 1) w1 =
                  Some (res, w1\<lparr>requests := requests w1 @ map (GetWorkPackages p 100) [k + 1..<k + 1 + n]\<rparr>)"
          and n1: "1 \<le> n" and nb: "n \<le> length (drop 100 rest) div 100 + 1"
          and hit: "\<forall>m. res = Inr (Some m) \<longrightarrow>
                findMatchingWorkPackage (take 100 (drop ((n - 1) * 100) (drop 100 rest))) q = Some m
              \<and> findMatchingWorkPackage (take ((n - 1) * 100) (drop 100 rest)) q = None"
          and miss: "res = Inr None \<longrightarrow>
                length (drop 100 rest) < n * 100 \<and> findMatchingWorkPackage (drop 100 rest) q = None"
          and err: "\<forall>e. res = Inl e \<longrightarrow>
                (\<exists>t. outage w1 (length (requests w1) + n - 1) = Some t \<and> e = HttpError t)"
          and quiet: "\<forall>i < n - 1. outage w1 (length (requests w1) + i) = None"
          unfolding rest' by auto
        have reqs: "w1\<lparr>requests := requests w1 @ map (GetWorkPackages p 100) [k + 1..<k + 1 + n]\<rparr>
                    = w\<lparr>requests := requests w @ map (GetWorkPackages p 100) [k..<k + (n + 1)]\<rparr>"
          by (simp add: w1_def upt_conv_Cons)
        have c1: "searchPages p q k w =
            Some (res, w\<lparr>requests := requests w @ map (GetWorkPackages p 100) [k..<k + (n + 1)]\<rparr>)"
          using step run reqs by simp
        have c2: "n + 1 \<le> length rest div 100 + 1"
          using nb False by simp
        have split_rest: "rest = take 100 rest @ drop 100 rest" by simp
        have c3: "\<forall>m. res = Inr (Some m) \<longrightarrow>
                findMatchingWorkPackage (take 100 (drop ((n + 1 - 1) * 100) rest)) q = Some m
              \<and> findMatchingWorkPackage (take ((n + 1 - 1) * 100) rest) q = None"
        proof (intro allI impI)
          fix m assume r: "res = Inr (Some m)"
          have d: "drop (n * 100) rest = drop ((n - 1) * 100) (drop 100 rest)"
            using n1 by (simp add: algebra_simps) 
          have t: "take (n * 100) rest = take 100 rest @ take ((n - 1) * 100) (drop 100 rest)"
            using n1 by (metis add.commute diff_add_inverse2 le_add_diff_inverse2 mult.commute mult_Suc_right take_add plus_1_eq_Suc)
          show "findMatchingWorkPackage (take 100 (drop ((n + 1 - 1) * 100) rest)) q = Some m
              \<and> findMatchingWorkPackage (take ((n + 1 - 1) * 100) rest) q = None"
            using hit r nomatch by (simp add: d t find_append)
        qed
        have c4: "res = Inr None \<longrightarrow>
                length rest < (n + 1) * 100 \<and> findMatchingWorkPackage rest q = None"
        proof
          assume r: "res = Inr None"
          then have a: "length (drop 100 rest) < n * 100"
            and b: "findMatchingWorkPackage (drop 100 rest) q = None" using miss by auto
          have "findMatchingWorkPackage (take 100 rest @ drop 100 rest) q = None"
            unfolding find_append using nomatch b by simp
          then show "length rest < (n + 1) * 100 \<and> findMatchingWorkPackage rest q = None"
            using a by simp
        qed
        have c5: "\<forall>e. res = Inl e \<longrightarrow>
                (\<exists>t. outage w (length (requests w) + (n + 1) - 1) = Some t \<and> e = HttpError t)"
          using err n1 by (simp add: w1_def)
        have c6: "\<forall>i < (n + 1) - 1. outage w (length (requests w) + i) = None"
        proof (intro allI impI)
          fix i assume "i < n + 1 - 1"
          show "outage w (length (requests w) + i) = None"
          proof (cases i)
            case 0 then show ?thesis using None by simp
          next
            case (Suc j)
            then have "j < n - 1" using \<open>i < n + 1 - 1\<close> by simp
            then show ?thesis using quiet Suc by (simp add: w1_def)
          qed
        qed
        show ?thesis
          using c1 c2 c3 c4 c5 c6 unfolding rest_def items_def
          by (intro exI[of _ res] exI[of _ "n + 1"]) simp
      qed
    qed
  qed
qed


lemma searchPages_exact:
  assumes "searchPages p q 1 w = Some (Inr found, w')"
  shows "found = findMatchingWorkPackage (projectWorkPackages w p) q"
proof -
  from searchPages_run[of 1 p q w] obtain res n where
    run: "searchPages p q 1 w =
            Some (res, w\<lparr>requests := requests w @ map (GetWorkPackages p 100) [1..<1 + n]\<rparr>)"
    and hit: "\<forall>m. res = Inr (Some m) \<longrightarrow>
                findMatchingWorkPackage (take 100 (drop ((n - 1) * 100) (projectWorkPackages w p))) q = Some m
              \<and> findMatchingWorkPackage (take ((n - 1) * 100) (projectWorkPackages w p)) q = None"
    and miss: "res = Inr None \<longrightarrow> findMatchingWorkPackage (projectWorkPackages w p) q = None"
    by auto
  from run assms have res: "res = Inr found" by simp
  show ?thesis
  proof (cases found)
    case None
    then show ?thesis using miss res by simp
  next
    case (Some m)
    let ?items = "projectWorkPackages w p"
    have "?items = take ((n - 1) * 100) ?items @ take 100 (drop ((n - 1) * 100) ?items)
                    @ drop 100 (drop ((n - 1) * 100) ?items)"
      by (metis append_take_drop_id)
    then have "findMatchingWorkPackage ?items q =
        findMatchingWorkPackage (take ((n - 1) * 100) ?items @ take 100 (drop ((n - 1) * 100) ?items)
                    @ drop 100 (drop ((n - 1) * 100) ?items)) q"
      by simp
    also have "\<dots> = Some m"
      unfolding find_append using hit res Some by simp
    finally show ?thesis using Some by simp
  qed
qed

lemma searchPages_quiet:
  assumes "\<forall>i \<ge> length (requests w). outage w i = None"
  shows "\<exists>n. searchPages p q 1 w =
           Some (Inr (findMatchingWorkPackage (projectWorkPackages w p) q),
                 w\<lparr>requests := requests w @ map (GetWorkPackages p 100) [1..<1 + n]\<rparr>)"
proof -
  from searchPages_run[of 1 p q w] obtain res n where
    run: "searchPages p q 1 w =
            Some (res, w\<lparr>requests := requests w @ map (GetWorkPackages p 100) [1..<1 + n]\<rparr>)"
    and n1: "1 \<le> n"
    and err: "\<forall>e. res = Inl e \<longrightarrow>
                (\<exists>t. outage w (length (requests w) + n - 1) = Some t \<and> e = HttpError t)"
    by auto
  have "\<exists>found. res = Inr found"
  proof (cases res)
    case (Inl e)
    then obtain t where "outage w (length (requests w) + n - 1) = Some t" using err by auto
    moreover have "length (requests w) \<le> length (requests w) + n - 1" using n1 by simp
    ultimately show ?thesis using assms by (metis option.distinct(1))
  next
    case (Inr r) then show ?thesis by simp
  qed
  then obtain found where res: "res = Inr found" ..
  with run searchPages_exact[of p q w found] show ?thesis by auto
qed



subsection \<open>Example data\<close>

definition exampleWpA :: work_package where "exampleWpA = \<lparr>wp_id = 11, wp_subject = Some ''fix login''\<rparr>"
definition exampleWpB :: work_package where "exampleWpB = \<lparr>wp_id = 12, wp_subject = Some ''fix login bug''\<rparr>"
definition exampleWpC :: work_package where "exampleWpC = \<lparr>wp_id = 0, wp_subject = Some ''a''\<rparr>"
definition exampleWorld :: world where "exampleWorld = \<lparr>work_packages = [(7, exampleWpA), (7, exampleWpB)], time_entries = [], next_id = 13, requests = [], outages = [], console = []\<rparr>"


definition exampleManyWorld :: world where
  "exampleManyWorld =
     \<lparr>work_packages = replicate 100 (7, exampleWpC) @ [(7, exampleWpB)], time_entries = [],
      next_id = 13, requests = [], outages = [], console = []\<rparr>"

definition exampleOutageWorld :: world where
  "exampleOutageWorld = exampleWorld\<lparr>outages := [(0, ''503'')]\<rparr>"

definition exampleRuntime :: runtime where
  "exampleRuntime =
     \<lparr>localDate = (\<lambda>s. None), localTime = (\<lambda>s. ''Inval''), timeValue = (\<lambda>s. None)\<rparr>"

definition exampleEntry :: entry where
  "exampleEntry =
     \<lparr>project = ''ALPHA'', subject = ''Write report'', activity = ''Development'',
      work_package_id = None, existing_work_package_id = None, project_id = 7,
      hours = Some 2, duration_hours = None, break_hours = None, is_scrum = False,
      entry_date = Some ''2025-10-23'', date = None, start_time = None,
      calculated_start_time = None, calculated_end_time = None, user_set_start_time = False\<rparr>"

definition exampleLinkedEntry :: entry where
  "exampleLinkedEntry = exampleEntry\<lparr>subject := ''Review'', work_package_id := Some 12\<rparr>"

definition exampleBadEntry :: entry where
  "exampleBadEntry = exampleEntry\<lparr>subject := ''Nothing'', work_package_id := Some 11, hours := Some 0\<rparr>"

definition exampleAnalysis :: analysis where
  "exampleAnalysis = \<lparr>scrum = [], existing = [], new = [], existingWorkPackages = [], duplicates = []\<rparr>"

definition exampleService :: service where
  "exampleService =
     \<lparr>PROJECT_MAPPINGS = [(''ALPHA'', 7)],
      workLogEntries = [exampleBadEntry, exampleLinkedEntry, exampleEntry],
      analysisData = Some exampleAnalysis\<rparr>"

text \<open>
  Two tasks of a date: 2.5 hours from 11:00, then 4.5 hours after a break of 0.33 hours;
  and a task of 1.025 hours and one of 0.175 hours from 10:00.
\<close>

definition exampleFirstTask :: entry where
  "exampleFirstTask =
     exampleEntry\<lparr>hours := None, duration_hours := Some (5 / 2),
       calculated_start_time := Some ''11:00'', user_set_start_time := True\<rparr>"

definition exampleSecondTask :: entry where
  "exampleSecondTask =
     exampleEntry\<lparr>subject := ''Review'', hours := None, duration_hours := Some (9 / 2),
       break_hours := Some (roundDouble (33 / 100))\<rparr>"

definition exampleTieTask :: entry where
  "exampleTieTask =
     exampleEntry\<lparr>hours := None, duration_hours := Some (roundDouble (41 / 40)),
       calculated_start_time := Some ''10:00'', user_set_start_time := True\<rparr>"

definition exampleShortTask :: entry where
  "exampleShortTask =
     exampleEntry\<lparr>hours := None, duration_hours := Some (roundDouble (7 / 40)),
       calculated_start_time := Some ''10:00'', user_set_start_time := True\<rparr>"

text \<open>
  A clock in the zone UTC at 08:30 of 23 October 2025, a task of two hours and a scrum
  entry of one hour, as the parser reads them and as the service holds them.
\<close>

definition exampleZone :: zone where
  "exampleZone =
     \<lparr>now = 1761208200000,
      setHours = (\<lambda>t h. (t div 86400000) * 86400000 + int h * 3600000)\<rparr>"

definition exampleTaskData :: entry_data where
  "exampleTaskData =
     \<lparr>raw_project = Some ''ALPHA'', raw_subject = Some ''Write report'',
      raw_description = None, raw_activity = Some ''Development'', raw_work_package_id = None,
      raw_is_scrum = Some False, raw_duration_hours = Some 2, raw_break_hours = None\<rparr>"

definition exampleScrumData :: entry_data where
  "exampleScrumData =
     exampleTaskData\<lparr>raw_subject := Some ''Daily scrum'', raw_activity := Some ''Meeting'',
       raw_work_package_id := Some 5, raw_is_scrum := Some True, raw_duration_hours := Some 1\<rparr>"

definition exampleScrumEntry :: entry where
  "exampleScrumEntry =
     exampleEntry\<lparr>subject := ''Daily scrum'', work_package_id := Some 5, hours := Some 1,
       is_scrum := True\<rparr>"


subsection \<open>Exact matching\<close>

text \<open>
  Claim C1, amended. The lookup returns a work package only if its subject, trimmed and
  lower-cased, equals the query subject trimmed and lower-cased, and it returns one
  whenever the page holds such a work package; a work package whose normalized subject
  merely includes the normalized query, or is included in it, without being equal to
  it is never returned. For the paginated lookup over the whole project: a work package
  it returns is one of the project with an equal normalized subject, and when no page
  request fails its answer is the first such work package of the project, if any.
\<close>

theorem lookup_exact_match:
  "(findMatchingWorkPackage page (toLowerCase (trim subj)) = Some wp \<longrightarrow>
      wp \<in> set page \<and> toLowerCase (trim (subjectOrEmpty wp)) = toLowerCase (trim subj))
   \<and> ((\<exists>x \<in> set page. toLowerCase (trim (subjectOrEmpty x)) = toLowerCase (trim subj)) \<longrightarrow>
      (\<exists>x. findMatchingWorkPackage page (toLowerCase (trim subj)) = Some x))
   \<and> ((includesStr (toLowerCase (trim (subjectOrEmpty wp))) (toLowerCase (trim subj))
        \<or> includesStr (toLowerCase (trim subj)) (toLowerCase (trim (subjectOrEmpty wp))))
       \<and> toLowerCase (trim (subjectOrEmpty wp)) \<noteq> toLowerCase (trim subj) \<longrightarrow>
      findMatchingWorkPackage page (toLowerCase (trim subj)) \<noteq> Some wp)
   \<and> (checkExistingWorkPackageBySubject projectId subj w = Some (Some wp, w') \<longrightarrow>
      wp \<in> set (projectWorkPackages w projectId)
      \<and> toLowerCase (trim (subjectOrEmpty wp)) = toLowerCase (trim subj))
   \<and> ((\<forall>i \<ge> length (requests w). outage w i = None) \<longrightarrow>
      (\<exists>w'. checkExistingWorkPackageBySubject projectId subj w =
              Some (findMatchingWorkPackage (projectWorkPackages w projectId)
                      (toLowerCase (trim subj)), w')))"
proof (intro conjI impI)
  assume "findMatchingWorkPackage page (toLowerCase (trim subj)) = Some wp"
  then show "wp \<in> set page" and "toLowerCase (trim (subjectOrEmpty wp)) = toLowerCase (trim subj)"
    by (auto dest: find_Some)
next
  assume "\<exists>x \<in> set page. toLowerCase (trim (subjectOrEmpty x)) = toLowerCase (trim subj)"
  then have "findMatchingWorkPackage page (toLowerCase (trim subj)) \<noteq> None"
    by (simp add: find_None_iff)
  then show "\<exists>x. findMatchingWorkPackage page (toLowerCase (trim subj)) = Some x"
    by auto
next
  assume "(includesStr (toLowerCase (trim (subjectOrEmpty wp))) (toLowerCase (trim subj))
        \<or> includesStr (toLowerCase (trim subj)) (toLowerCase (trim (subjectOrEmpty wp))))
       \<and> toLowerCase (trim (subjectOrEmpty wp)) \<noteq> toLowerCase (trim subj)"
  then show "findMatchingWorkPackage page (toLowerCase (trim subj)) \<noteq> Some wp"
    by (auto dest: find_Some)
next
  assume a: "checkExistingWorkPackageBySubject projectId subj w = Some (Some wp, w')"
  then have "searchPages projectId (toLowerCase (trim subj)) 1 w = Some (Inr (Some wp), w')"
    by (auto simp: checkExistingWorkPackageBySubject_def split: option.splits sum.splits prod.splits)
  then have "findMatchingWorkPackage (projectWorkPackages w projectId) (toLowerCase (trim subj)) = Some wp"
    using searchPages_exact by metis
  then show "wp \<in> set (projectWorkPackages w projectId)"
    and "toLowerCase (trim (subjectOrEmpty wp)) = toLowerCase (trim subj)"
    by (auto dest: find_Some)
next
  assume "\<forall>i \<ge> length (requests w). outage w i = None"
  from searchPages_quiet[OF this, of projectId "toLowerCase (trim subj)"]
  show "\<exists>w'. checkExistingWorkPackageBySubject projectId subj w =
              Some (findMatchingWorkPackage (projectWorkPackages w projectId)
                      (toLowerCase (trim subj)), w')"
    by (auto simp: checkExistingWorkPackageBySubject_def)
qed

theorem lookup_exact_match_witness:
  "findMatchingWorkPackage [exampleWpA, exampleWpB] (toLowerCase (trim ''Fix Login Bug '')) = Some exampleWpB
   \<and> toLowerCase (trim (subjectOrEmpty exampleWpB)) = toLowerCase (trim ''Fix Login Bug '')
   \<and> includesStr (toLowerCase (trim ''Fix Login Bug '')) (toLowerCase (trim (subjectOrEmpty exampleWpA)))
   \<and> findMatchingWorkPackage [exampleWpA, exampleWpB] (toLowerCase (trim ''Fix Login Bug '')) \<noteq> Some exampleWpA
   \<and> (\<exists>w'. checkExistingWorkPackageBySubject 7 ''Fix Login Bug '' exampleWorld = Some (Some exampleWpB, w'))"
proof -
  have h1: "findMatchingWorkPackage [exampleWpA, exampleWpB] (toLowerCase (trim ''Fix Login Bug '')) = Some exampleWpB"
    by code_simp
  have h2: "includesStr (toLowerCase (trim ''Fix Login Bug '')) (toLowerCase (trim (subjectOrEmpty exampleWpA)))"
    by code_simp
  have h3: "toLowerCase (trim (subjectOrEmpty exampleWpA)) \<noteq> toLowerCase (trim ''Fix Login Bug '')"
    by code_simp
  have h4: "\<forall>i \<ge> length (requests exampleWorld). outage exampleWorld i = None"
    by (simp add: exampleWorld_def outage_def)
  have h5: "findMatchingWorkPackage (projectWorkPackages exampleWorld 7) (toLowerCase (trim ''Fix Login Bug '')) = Some exampleWpB"
    by code_simp
  note inst = lookup_exact_match[of "[exampleWpA, exampleWpB]" "''Fix Login Bug ''" _ 7 exampleWorld]
  from inst[of exampleWpB] h1 have c1: "toLowerCase (trim (subjectOrEmpty exampleWpB)) = toLowerCase (trim ''Fix Login Bug '')"
    by blast
  from inst[of exampleWpA] h2 h3 have c2: "findMatchingWorkPackage [exampleWpA, exampleWpB] (toLowerCase (trim ''Fix Login Bug '')) \<noteq> Some exampleWpA"
    by blast
  from inst[of exampleWpB] h4 h5 have c3: "\<exists>w'. checkExistingWorkPackageBySubject 7 ''Fix Login Bug '' exampleWorld = Some (Some exampleWpB, w')"
    by metis
  from h1 c1 h2 c2 c3 show ?thesis by blast
qed


text \<open>
  The claim as the specification has it, an equivalence for the lookup over the remote
  system, fails when a page request fails: the error is caught inside the lookup, which
  returns \<open>null\<close> although the project holds a work package with the normalized subject.
\<close>

theorem lookup_outage_counterexample:
  "exampleWpB \<in> set (projectWorkPackages exampleOutageWorld 7)
   \<and> toLowerCase (trim (subjectOrEmpty exampleWpB)) = toLowerCase (trim ''Fix Login Bug '')
   \<and> checkExistingWorkPackageBySubject 7 ''Fix Login Bug '' exampleOutageWorld
       = Some (None, exampleOutageWorld
                 \<lparr>requests := [GetWorkPackages 7 100 1],
                  console := [CouldNotCheckExistingWorkPackages (HttpError ''503'')]\<rparr>)"
  by (intro conjI; code_simp)


subsection \<open>Termination and the number of page requests\<close>




lemma searchPages_frame:
  assumes "searchPages p q 1 w = Some (res, w1)"
  shows "\<exists>n. w1 = w\<lparr>requests := requests w @ map (GetWorkPackages p 100) [1..<1 + n]\<rparr> \<and> 1 \<le> n"
  using searchPages_run[of 1 p q w] assms by auto


section \<open>Properties of work-package creation and categorization\<close>

lemma createWorkPackage_existing:
  assumes "searchPages projectId (toLowerCase (trim subj)) 1 w = Some (Inr found, w1)"
    and "\<exists>x \<in> set (projectWorkPackages w projectId).
           toLowerCase (trim (subjectOrEmpty x)) = toLowerCase (trim subj)"
  shows "\<exists>wp. createWorkPackage projectId subj w = Some (Inr wp, w1)
           \<and> findMatchingWorkPackage (projectWorkPackages w projectId) (toLowerCase (trim subj)) = Some wp
           \<and> work_packages w1 = work_packages w
           \<and> (\<forall>rq \<in> set (requests w1).
                 rq \<in> set (requests w) \<or> (\<exists>offset. rq = GetWorkPackages projectId 100 offset))"
proof -
  let ?q = "toLowerCase (trim subj)"
  have f: "found = findMatchingWorkPackage (projectWorkPackages w projectId) ?q"
    using searchPages_exact[OF assms(1)] .
  have "findMatchingWorkPackage (projectWorkPackages w projectId) ?q \<noteq> None"
    using assms(2) by (simp add: find_None_iff)
  then obtain wp where wp: "found = Some wp" using f by auto
  have c: "createWorkPackage projectId subj w = Some (Inr wp, w1)"
    using assms(1) wp by (simp add: createWorkPackage_def checkExistingWorkPackageBySubject_def)
  from searchPages_frame[OF assms(1)] obtain n where
    w1: "w1 = w\<lparr>requests := requests w @ map (GetWorkPackages projectId 100) [1..<1 + n]\<rparr>"
    by blast
  have r: "\<forall>rq \<in> set (requests w1).
                 rq \<in> set (requests w) \<or> (\<exists>offset. rq = GetWorkPackages projectId 100 offset)"
    unfolding w1 by auto
  show ?thesis using c f wp w1 r by auto
qed

lemma createWorkPackage_lookup_failed:
  assumes "searchPages projectId (toLowerCase (trim subj)) 1 w = Some (Inl err, w1)"
  shows "checkExistingWorkPackageBySubject projectId subj w
           = Some (None, w1\<lparr>console := console w1 @ [CouldNotCheckExistingWorkPackages err]\<rparr>)"
    and "\<exists>r w2. createWorkPackage projectId subj w = Some (r, w2)
           \<and> requests w2 = requests w1 @ [PostWorkPackage projectId subj]
           \<and> (outage w1 (length (requests w1)) = None \<longrightarrow>
                r = Inr \<lparr>wp_id = next_id w1, wp_subject = Some subj\<rparr>
                \<and> work_packages w2
                    = work_packages w1 @ [(projectId, \<lparr>wp_id = next_id w1, wp_subject = Some subj\<rparr>)])"
proof -
  show c: "checkExistingWorkPackageBySubject projectId subj w
           = Some (None, w1\<lparr>console := console w1 @ [CouldNotCheckExistingWorkPackages err]\<rparr>)"
    using assms by (simp add: checkExistingWorkPackageBySubject_def)
  show "\<exists>r w2. createWorkPackage projectId subj w = Some (r, w2)
           \<and> requests w2 = requests w1 @ [PostWorkPackage projectId subj]
           \<and> (outage w1 (length (requests w1)) = None \<longrightarrow>
                r = Inr \<lparr>wp_id = next_id w1, wp_subject = Some subj\<rparr>
                \<and> work_packages w2
                    = work_packages w1 @ [(projectId, \<lparr>wp_id = next_id w1, wp_subject = Some subj\<rparr>)])"
    by (cases "outage w1 (length (requests w1))")
       (simp_all add: createWorkPackage_def c makeRequest_def storeWorkPackage_def outage_def Let_def)
qed

text \<open>
  Claim C10, amended. \<open>createWorkPackage\<close> performs the lookup itself first. When the
  page requests of that lookup all succeed and the project holds a work package whose
  normalized subject equals the normalized subject asked for, it returns the first
  such work package, leaves the work packages of the remote system as they are, and
  issues page requests only, no creation request. When a page request of the lookup
  fails, the lookup catches the error and reports no match, and the creation request is
  issued, whether or not the project holds a work package with that normalized subject;
  when it is answered, the new work package is added to the project.
\<close>

theorem createWorkPackage_returns_existing:
  "(searchPages projectId (toLowerCase (trim subj)) 1 w = Some (Inr found, w1)
      \<and> (\<exists>x \<in> set (projectWorkPackages w projectId).
             toLowerCase (trim (subjectOrEmpty x)) = toLowerCase (trim subj)) \<longrightarrow>
    (\<exists>wp. createWorkPackage projectId subj w = Some (Inr wp, w1)
           \<and> findMatchingWorkPackage (projectWorkPackages w projectId) (toLowerCase (trim subj)) = Some wp
           \<and> work_packages w1 = work_packages w
           \<and> (\<forall>rq \<in> set (requests w1).
                 rq \<in> set (requests w) \<or> (\<exists>offset. rq = GetWorkPackages projectId 100 offset))))
   \<and> (searchPages projectId (toLowerCase (trim subj)) 1 w = Some (Inl err, w2) \<longrightarrow>
        checkExistingWorkPackageBySubject projectId subj w
          = Some (None, w2\<lparr>console := console w2 @ [CouldNotCheckExistingWorkPackages err]\<rparr>)
        \<and> (\<exists>r w3. createWorkPackage projectId subj w = Some (r, w3)
              \<and> requests w3 = requests w2 @ [PostWorkPackage projectId subj]
              \<and> (outage w2 (length (requests w2)) = None \<longrightarrow>
                   r = Inr \<lparr>wp_id = next_id w2, wp_subject = Some subj\<rparr>
                   \<and> work_packages w3
                       = work_packages w2 @ [(projectId, \<lparr>wp_id = next_id w2, wp_subject = Some subj\<rparr>)])))"
  using createWorkPackage_existing[of projectId subj w found w1]
    createWorkPackage_lookup_failed[of projectId subj w err w2]
  by blast


theorem createWorkPackage_returns_existing_witness:
  "createWorkPackage 7 ''Fix Login Bug '' exampleWorld =
     Some (Inr exampleWpB, exampleWorld\<lparr>requests := [GetWorkPackages 7 100 1]\<rparr>)
   \<and> work_packages (exampleWorld\<lparr>requests := [GetWorkPackages 7 100 1]\<rparr>) = work_packages exampleWorld
   \<and> (\<exists>r w3. createWorkPackage 7 ''Fix Login Bug '' exampleOutageWorld = Some (r, w3)
         \<and> requests w3 = [GetWorkPackages 7 100 1, PostWorkPackage 7 ''Fix Login Bug ''])"
proof -
  have h1: "searchPages 7 (toLowerCase (trim ''Fix Login Bug '')) 1 exampleWorld =
              Some (Inr (Some exampleWpB), exampleWorld\<lparr>requests := [GetWorkPackages 7 100 1]\<rparr>)"
    by code_simp
  have h2: "\<exists>x \<in> set (projectWorkPackages exampleWorld 7).
           toLowerCase (trim (subjectOrEmpty x)) = toLowerCase (trim ''Fix Login Bug '')"
    by code_simp
  have h3: "searchPages 7 (toLowerCase (trim ''Fix Login Bug '')) 1 exampleOutageWorld =
              Some (Inl (HttpError ''503''), exampleOutageWorld\<lparr>requests := [GetWorkPackages 7 100 1]\<rparr>)"
    by code_simp
  note inst1 = createWorkPackage_returns_existing[where projectId = 7 and subj = "''Fix Login Bug ''"
      and w = exampleWorld and found = "Some exampleWpB"
      and ?w1.0 = "exampleWorld\<lparr>requests := [GetWorkPackages 7 100 1]\<rparr>", THEN conjunct1]
  note inst2 = createWorkPackage_returns_existing[where projectId = 7 and subj = "''Fix Login Bug ''"
      and w = exampleOutageWorld and err = "HttpError ''503''"
      and ?w2.0 = "exampleOutageWorld\<lparr>requests := [GetWorkPackages 7 100 1]\<rparr>", THEN conjunct2]
  from inst1 h1 h2 obtain wp where
    a: "createWorkPackage 7 ''Fix Login Bug '' exampleWorld =
          Some (Inr wp, exampleWorld\<lparr>requests := [GetWorkPackages 7 100 1]\<rparr>)"
    and b: "findMatchingWorkPackage (projectWorkPackages exampleWorld 7) (toLowerCase (trim ''Fix Login Bug '')) = Some wp"
    and c: "work_packages (exampleWorld\<lparr>requests := [GetWorkPackages 7 100 1]\<rparr>) = work_packages exampleWorld"
    by blast
  have "findMatchingWorkPackage (projectWorkPackages exampleWorld 7) (toLowerCase (trim ''Fix Login Bug '')) = Some exampleWpB"
    by code_simp
  with b have "wp = exampleWpB" by simp
  with a c have A: "createWorkPackage 7 ''Fix Login Bug '' exampleWorld =
     Some (Inr exampleWpB, exampleWorld\<lparr>requests := [GetWorkPackages 7 100 1]\<rparr>)
   \<and> work_packages (exampleWorld\<lparr>requests := [GetWorkPackages 7 100 1]\<rparr>) = work_packages exampleWorld"
    by simp
  from inst2 h3 obtain r w3 where
    "createWorkPackage 7 ''Fix Login Bug '' exampleOutageWorld = Some (r, w3)"
    and "requests w3 = requests (exampleOutageWorld\<lparr>requests := [GetWorkPackages 7 100 1]\<rparr>)
                         @ [PostWorkPackage 7 ''Fix Login Bug '']"
    by blast
  then have B: "\<exists>r w3. createWorkPackage 7 ''Fix Login Bug '' exampleOutageWorld = Some (r, w3)
         \<and> requests w3 = [GetWorkPackages 7 100 1, PostWorkPackage 7 ''Fix Login Bug '']"
    by simp
  from A B show ?thesis by simp
qed


text \<open>
  The claim as stated fails when a page request of the lookup fails: the lookup
  catches the error and reports no match, and the creation request is issued although
  the project holds a work package with the same normalized subject.
\<close>

theorem createWorkPackage_outage_counterexample:
  "findMatchingWorkPackage (projectWorkPackages exampleOutageWorld 7)
       (toLowerCase (trim ''Fix Login Bug '')) = Some exampleWpB
   \<and> createWorkPackage 7 ''Fix Login Bug '' exampleOutageWorld =
       Some (Inr \<lparr>wp_id = 13, wp_subject = Some ''Fix Login Bug ''\<rparr>,
             exampleOutageWorld
               \<lparr>work_packages := [(7, exampleWpA), (7, exampleWpB),
                                   (7, \<lparr>wp_id = 13, wp_subject = Some ''Fix Login Bug ''\<rparr>)],
                next_id := 14,
                requests := [GetWorkPackages 7 100 1, PostWorkPackage 7 ''Fix Login Bug ''],
                console := [CouldNotCheckExistingWorkPackages (HttpError ''503'')]\<rparr>)"
  by code_simp


text \<open>
  Claim C8. For an entry with no linked work package whose project is mapped, when a
  page request of the duplicate lookup throws, categorization neither throws nor
  stops: the entry is added to the \<open>new\<close> bucket, the other buckets are unchanged,
  and the error is written to the console.
\<close>

theorem categorize_fails_open:
  assumes "\<not> present (work_package_id e)"
    and "truthy (map_of (PROJECT_MAPPINGS svc) (project e)) = Some projectId"
    and "searchPages projectId (toLowerCase (trim (subject e))) 1 w = Some (Inl err, w1)"
  shows "categorizeEntry svc e analysisResult w =
           Some (Inr (e, analysisResult\<lparr>new := new analysisResult @ [e]\<rparr>),
                 w1\<lparr>console := console w1 @ [CouldNotCheckExistingWorkPackages err]\<rparr>)"
  using assms
  by (simp add: categorizeEntry_def checkForDuplicatesOrNew_def handleNewEntry_def
      checkExistingWorkPackageBySubject_def)

theorem categorize_fails_open_witness:
  "categorizeEntry exampleService exampleEntry exampleAnalysis exampleOutageWorld =
     Some (Inr (exampleEntry, exampleAnalysis\<lparr>new := [exampleEntry]\<rparr>),
           exampleOutageWorld
             \<lparr>requests := [GetWorkPackages 7 100 1],
              console := [CouldNotCheckExistingWorkPackages (HttpError ''503'')]\<rparr>)"
proof -
  have h1: "\<not> present (work_package_id exampleEntry)" by code_simp
  have h2: "truthy (map_of (PROJECT_MAPPINGS exampleService) (project exampleEntry)) = Some 7"
    by code_simp
  have h3: "searchPages 7 (toLowerCase (trim (subject exampleEntry))) 1 exampleOutageWorld =
              Some (Inl (HttpError ''503''), exampleOutageWorld\<lparr>requests := [GetWorkPackages 7 100 1]\<rparr>)"
    by code_simp
  have "new exampleAnalysis = []" "console exampleOutageWorld = []"
    by (simp_all add: exampleAnalysis_def exampleOutageWorld_def exampleWorld_def)
  with categorize_fails_open[OF h1 h2 h3, of exampleAnalysis] show ?thesis by simp
qed

section \<open>Properties of the processing loops\<close>

lemma checkExisting_returns:
  "\<exists>found w'. checkExistingWorkPackageBySubject p s w = Some (found, w')"
proof -
  from searchPages_run[of 1 p "toLowerCase (trim s)" w]
  obtain res w1 where "searchPages p (toLowerCase (trim s)) 1 w = Some (res, w1)" by auto
  then show ?thesis
    by (cases res) (auto simp: checkExistingWorkPackageBySubject_def)
qed

lemma createWorkPackage_returns:
  "\<exists>r w'. createWorkPackage p s w = Some (r, w')"
proof -
  obtain found w1 where "checkExistingWorkPackageBySubject p s w = Some (found, w1)"
    using checkExisting_returns by blast
  then show ?thesis
    by (cases found) (auto simp: createWorkPackage_def intro: prod.exhaust)
qed

lemma createNewWorkPackageWithTime_returns:
  "\<exists>r w'. createNewWorkPackageWithTime rt e p d w = Some (r, w')"
proof -
  obtain r w1 where "createWorkPackage p (subject e) w = Some (r, w1)"
    using createWorkPackage_returns by blast
  then show ?thesis
    by (cases r) (auto simp: createNewWorkPackageWithTime_def split: prod.splits sum.splits)
qed

lemma processNewWorkPackage_returns:
  "\<exists>r w'. processNewWorkPackage svc rt e d w = Some (r, w')"
proof (cases "getProjectId svc (project e)")
  case (Inl err)
  then show ?thesis by (simp add: processNewWorkPackage_def)
next
  case (Inr p)
  obtain found w1 where c: "checkExistingWorkPackageBySubject p (subject e) w = Some (found, w1)"
    using checkExisting_returns by blast
  show ?thesis
  proof (cases found)
    case None
    then show ?thesis
      using Inr c createNewWorkPackageWithTime_returns[of rt e p d w1]
      by (simp add: processNewWorkPackage_def)
  next
    case (Some wp)
    then show ?thesis
      using Inr c by (simp add: processNewWorkPackage_def)
  qed
qed

lemma processEntry_returns:
  "\<exists>out w'. processEntry svc rt e w = Some (out, w')"
  using processNewWorkPackage_returns[of svc rt e _ w]
  by (auto simp: processEntry_def Let_def enrichEntryMetadata_def
      split: option.splits sum.splits intro: prod.exhaust)

definition track :: "entry \<Rightarrow> error + result \<Rightarrow> tracked" where
  "track e out = (case out of
      Inl err \<Rightarrow> \<lparr>success = False, t_entry = e, t_result = None, t_error = Some err\<rparr>
    | Inr r \<Rightarrow> \<lparr>success = True, t_entry = e, t_result = Some r, t_error = None\<rparr>)"

definition count :: "error + result \<Rightarrow> stats \<Rightarrow> stats" where
  "count out st = (case out of
      Inl err \<Rightarrow> st\<lparr>s_errorCount := s_errorCount st + 1\<rparr>
    | Inr r \<Rightarrow> updateStats (r_type r) st)"

lemma processAndTrackEntry_eq:
  assumes "processEntry svc rt e w = Some (out, w')"
  shows "processAndTrackEntry svc rt e (rs, st) w = Some ((rs @ [track e out], count out st), w')"
  using assms by (cases out) (simp_all add: processAndTrackEntry_def track_def count_def)


lemma processEntriesLoop_append:
  "processEntriesLoop svc rt (xs @ ys) acc w =
     (case processEntriesLoop svc rt xs acc w of
        None \<Rightarrow> None
      | Some (acc', w') \<Rightarrow> processEntriesLoop svc rt ys acc' w')"
  by (induction xs arbitrary: acc w) (auto split: option.splits)

lemma processEntriesLoop_shape:
  "\<exists>ts st' w'. processEntriesLoop svc rt es (rs, st) w = Some ((rs @ ts, st'), w')
      \<and> map t_entry ts = es
      \<and> s_errorCount st' = s_errorCount st + length (filter (\<lambda>t. \<not> success t) ts)
      \<and> s_createdCount st' = s_createdCount st
            + length (filter (\<lambda>t. success t \<and> map_option r_type (t_result t) = Some TypeNew) ts)
      \<and> s_updatedCount st' = s_updatedCount st
            + length (filter (\<lambda>t. success t \<and> map_option r_type (t_result t) \<noteq> Some TypeNew) ts)"
proof (induction es arbitrary: rs st w)
  case Nil
  show ?case by (intro exI[of _ "[]"]) simp
next
  case (Cons e es)
  obtain out w1 where pe: "processEntry svc rt e w = Some (out, w1)"
    using processEntry_returns by blast
  note step = processAndTrackEntry_eq[OF pe, of rs st]
  from Cons.IH[of "rs @ [track e out]" "count out st" w1] obtain ts st' w' where
    run: "processEntriesLoop svc rt es (rs @ [track e out], count out st) w1
            = Some (((rs @ [track e out]) @ ts, st'), w')"
    and ents: "map t_entry ts = es"
    and ec: "s_errorCount st' = s_errorCount (count out st) + length (filter (\<lambda>t. \<not> success t) ts)"
    and cc: "s_createdCount st' = s_createdCount (count out st)
            + length (filter (\<lambda>t. success t \<and> map_option r_type (t_result t) = Some TypeNew) ts)"
    and uc: "s_updatedCount st' = s_updatedCount (count out st)
            + length (filter (\<lambda>t. success t \<and> map_option r_type (t_result t) \<noteq> Some TypeNew) ts)"
    by blast
  have a: "processEntriesLoop svc rt (e # es) (rs, st) w = Some ((rs @ (track e out # ts), st'), w')"
    using step run by simp
  have b: "map t_entry (track e out # ts) = e # es"
    using ents by (cases out) (simp_all add: track_def)
  show ?case
    using a b ec cc uc
    by (intro exI[of _ "track e out # ts"] exI[of _ st'] exI[of _ w'])
       (cases out; simp add: track_def count_def updateStats_def)
qed


lemma ensureWorkPackageExists_returns:
  "\<exists>r w'. ensureWorkPackageExists e d w = Some (r, w')"
proof (cases "truthy (work_package_id e)")
  case (Some n)
  then show ?thesis by (simp add: ensureWorkPackageExists_def)
next
  case None
  obtain found w1 where c: "checkExistingWorkPackageBySubject (project_id e) (subject e) w = Some (found, w1)"
    using checkExisting_returns by blast
  show ?thesis
  proof (cases found)
    case (Some wp)
    then show ?thesis using None c by (simp add: ensureWorkPackageExists_def)
  next
    case nf: None
    obtain r w2 where "createWorkPackage (project_id e) (subject e) w1 = Some (r, w2)"
      using createWorkPackage_returns by blast
    then show ?thesis using None c nf
      by (cases r) (simp_all add: ensureWorkPackageExists_def)
  qed
qed

lemma tryProcessWorkLogEntry_returns:
  "\<exists>r w'. tryProcessWorkLogEntry rt e dt d rs w = Some (r, w')"
proof -
  obtain r w1 where "ensureWorkPackageExists e d w = Some (r, w1)"
    using ensureWorkPackageExists_returns by blast
  then show ?thesis
    by (cases r) (auto simp: tryProcessWorkLogEntry_def split: prod.splits sum.splits)
qed

definition finish :: "run_results \<Rightarrow> (error \<times> detail) + (detail \<times> run_results) \<Rightarrow> run_results" where
  "finish rs out = (case out of
      Inl (err, d1) \<Rightarrow> rs\<lparr>failed := failed rs + 1,
                           details := details rs @ [d1\<lparr>d_status := Some status_error, d_error := Some err\<rparr>]\<rparr>
    | Inr (d2, rs') \<Rightarrow> rs'\<lparr>details := details rs' @ [d2]\<rparr>)"

lemma processWorkLogEntry_eq:
  assumes "tryProcessWorkLogEntry rt e dt (createEntryDetail e i) rs w = Some (out, w')"
  shows "processWorkLogEntry rt e i dt rs w = Some (finish rs out, w')"
  using assms
  by (cases out) (auto simp: processWorkLogEntry_def finish_def handleEntryError_def)

lemma processWorkLogEntriesFrom_append:
  "processWorkLogEntriesFrom rt (xs @ ys) i dt rs w =
     (case processWorkLogEntriesFrom rt xs i dt rs w of
        None \<Rightarrow> None
      | Some (rs', w') \<Rightarrow> processWorkLogEntriesFrom rt ys (i + length xs) dt rs' w')"
  by (induction xs arbitrary: i rs w) (auto split: option.splits)

lemma ensure_shape:
  assumes "ensureWorkPackageExists e d w = Some (Inr (n, d1), w')"
  shows "d_index d1 = d_index d \<and> d_subject d1 = d_subject d \<and> d_error d1 = d_error d"
  using assms
  by (auto simp: ensureWorkPackageExists_def split: option.splits sum.splits prod.splits)

lemma addTimeEntry_shape:
  assumes "addTimeEntry rt n e dt d rs w = (Inr (d2, rs'), w')"
  shows "rs' = rs\<lparr>successful := successful rs + 1\<rparr> \<and> d_index d2 = d_index d
         \<and> d_subject d2 = d_subject d \<and> d_error d2 = d_error d
         \<and> d_status d2 \<noteq> Some status_error"
  using assms
  by (auto simp: addTimeEntry_def split: prod.splits if_splits sum.splits)

lemma try_shape:
  assumes "tryProcessWorkLogEntry rt e dt d rs w = Some (out, w')"
  shows "case out of
           Inl (err, d1) \<Rightarrow> d_index d1 = d_index d \<and> d_subject d1 = d_subject d
         | Inr (d2, rs') \<Rightarrow> rs' = rs\<lparr>successful := successful rs + 1\<rparr> \<and> d_index d2 = d_index d
              \<and> d_subject d2 = d_subject d \<and> d_error d2 = d_error d
              \<and> d_status d2 \<noteq> Some status_error"
proof -
  obtain r w1 where en: "ensureWorkPackageExists e d w = Some (r, w1)"
    using ensureWorkPackageExists_returns by blast
  show ?thesis
  proof (cases r)
    case (Inl err)
    then show ?thesis using en assms by (auto simp: tryProcessWorkLogEntry_def)
  next
    case (Inr p)
    obtain n d1 where p: "p = (n, d1)" by (cases p)
    note es = ensure_shape[OF en[unfolded Inr p]]
    obtain r2 w2 where at: "addTimeEntry rt n e dt d1 rs w1 = (r2, w2)" by (cases "addTimeEntry rt n e dt d1 rs w1")
    show ?thesis
    proof (cases r2)
      case (Inl err)
      then show ?thesis using en Inr p at assms es by (auto simp: tryProcessWorkLogEntry_def)
    next
      case (Inr q)
      obtain d2 rs' where q: "q = (d2, rs')" by (cases q)
      note as = addTimeEntry_shape[OF at[unfolded Inr q]]
      show ?thesis using en \<open>r = Inr p\<close> p at Inr q assms es as
        by (auto simp: tryProcessWorkLogEntry_def)
    qed
  qed
qed

definition isError :: "detail \<Rightarrow> bool" where
  "isError d = (d_status d = Some status_error)"

lemma finish_shape:
  assumes "tryProcessWorkLogEntry rt e dt (createEntryDetail e i) rs w = Some (out, w')"
  shows "\<exists>d. finish rs out = rs\<lparr>successful := successful rs + (if isError d then 0 else 1),
                                 failed := failed rs + (if isError d then 1 else 0),
                                 details := details rs @ [d]\<rparr>
             \<and> d_index d = i + 1 \<and> d_subject d = subject e
             \<and> (isError d \<longleftrightarrow> d_error d \<noteq> None)
             \<and> (\<forall>err d1. out = Inl (err, d1) \<longrightarrow> d = d1\<lparr>d_status := Some status_error, d_error := Some err\<rparr>)"
proof (cases out)
  case (Inl p)
  obtain err d1 where p: "p = (err, d1)" by (cases p)
  from try_shape[OF assms] Inl p have "d_index d1 = i + 1" "d_subject d1 = subject e"
    by (simp_all add: createEntryDetail_def)
  then show ?thesis using Inl p
    by (intro exI[of _ "d1\<lparr>d_status := Some status_error, d_error := Some err\<rparr>"])
       (simp add: finish_def isError_def)
next
  case (Inr q)
  obtain d2 rs' where q: "q = (d2, rs')" by (cases q)
  from try_shape[OF assms] Inr q have
    "rs' = rs\<lparr>successful := successful rs + 1\<rparr>" "d_index d2 = i + 1" "d_subject d2 = subject e"
    "d_error d2 = None" "d_status d2 \<noteq> Some status_error"
    by (simp_all add: createEntryDetail_def)
  then show ?thesis using Inr q
    by (intro exI[of _ d2]) (simp add: finish_def isError_def)
qed

lemma processWorkLogEntriesFrom_shape:
  "\<exists>ds rs' w'. processWorkLogEntriesFrom rt es i dt rs w = Some (rs', w')
      \<and> details rs' = details rs @ ds
      \<and> map d_index ds = [i + 1..<i + 1 + length es]
      \<and> map d_subject ds = map subject es
      \<and> failed rs' = failed rs + length (filter isError ds)
      \<and> successful rs' = successful rs + length (filter (\<lambda>d. \<not> isError d) ds)
      \<and> (\<forall>d \<in> set ds. isError d \<longleftrightarrow> d_error d \<noteq> None)"
proof (induction es arbitrary: i rs w)
  case Nil
  show ?case by (intro exI[of _ "[]"]) simp
next
  case (Cons e es)
  obtain out w1 where t: "tryProcessWorkLogEntry rt e dt (createEntryDetail e i) rs w = Some (out, w1)"
    using tryProcessWorkLogEntry_returns by blast
  note step = processWorkLogEntry_eq[OF t]
  from finish_shape[OF t] obtain d where
    fin: "finish rs out = rs\<lparr>successful := successful rs + (if isError d then 0 else 1),
                                 failed := failed rs + (if isError d then 1 else 0),
                                 details := details rs @ [d]\<rparr>"
    and di: "d_index d = i + 1" and ds: "d_subject d = subject e"
    and de: "isError d \<longleftrightarrow> d_error d \<noteq> None"
    by blast
  from Cons.IH[of "i + 1" "finish rs out" w1] obtain ds' rs' w' where
    run: "processWorkLogEntriesFrom rt es (i + 1) dt (finish rs out) w1 = Some (rs', w')"
    and a: "details rs' = details (finish rs out) @ ds'"
    and b: "map d_index ds' = [i + 1 + 1..<i + 1 + 1 + length es]"
    and c: "map d_subject ds' = map subject es"
    and f: "failed rs' = failed (finish rs out) + length (filter isError ds')"
    and s: "successful rs' = successful (finish rs out) + length (filter (\<lambda>d. \<not> isError d) ds')"
    and e: "\<forall>d \<in> set ds'. isError d \<longleftrightarrow> d_error d \<noteq> None"
    by blast
  have r: "processWorkLogEntriesFrom rt (e # es) i dt rs w = Some (rs', w')"
    using step run by simp
  have "[i + 1..<i + 1 + length (e # es)] = (i + 1) # [i + 1 + 1..<i + 1 + 1 + length es]"
    by (subst upt_conv_Cons) simp_all
  then have idx: "map d_index (d # ds') = [i + 1..<i + 1 + length (e # es)]"
    using di b by (simp del: upt_Suc)
  show ?case
    using r a c f s e de ds idx unfolding fin
    by (intro exI[of _ "d # ds'"] exI[of _ rs'] exI[of _ w']) auto
qed

lemma length_filter_three:
  "length (filter (\<lambda>t. success t \<and> map_option r_type (t_result t) = Some TypeNew) ts)
   + length (filter (\<lambda>t. success t \<and> map_option r_type (t_result t) \<noteq> Some TypeNew) ts)
   + length (filter (\<lambda>t. \<not> success t) ts) = length ts"
  by (induction ts) auto


text \<open>
  Claim C9. For every list of entries \<open>processAllEntries\<close> returns, with exactly one
  result for each entry, in the order of the entries; \<open>createdCount\<close> counts the
  successful results of type new, \<open>updatedCount\<close> the other successful results,
  \<open>errorCount\<close> the failures, so the three add up to the number of entries, and
  \<open>successCount\<close> is \<open>createdCount + updatedCount\<close>.
\<close>

theorem processAllEntries_counts:
  "\<exists>pr w'. processAllEntries svc rt w = Some (pr, w')
      \<and> map t_entry (results pr) = workLogEntries svc
      \<and> createdCount pr + updatedCount pr + errorCount pr = length (workLogEntries svc)
      \<and> successCount pr = createdCount pr + updatedCount pr
      \<and> createdCount pr =
          length (filter (\<lambda>t. success t \<and> map_option r_type (t_result t) = Some TypeNew) (results pr))
      \<and> updatedCount pr =
          length (filter (\<lambda>t. success t \<and> map_option r_type (t_result t) \<noteq> Some TypeNew) (results pr))
      \<and> errorCount pr = length (filter (\<lambda>t. \<not> success t) (results pr))
      \<and> totalEntries pr = length (workLogEntries svc)"
proof -
  let ?st0 = "\<lparr>s_createdCount = 0, s_updatedCount = 0, s_errorCount = 0\<rparr>"
  from processEntriesLoop_shape[of svc rt "workLogEntries svc" "[]" ?st0 w]
  obtain ts st' w' where
    run: "processEntriesLoop svc rt (workLogEntries svc) ([], ?st0) w = Some ((ts, st'), w')"
    and ents: "map t_entry ts = workLogEntries svc"
    and ec: "s_errorCount st' = length (filter (\<lambda>t. \<not> success t) ts)"
    and cc: "s_createdCount st' =
               length (filter (\<lambda>t. success t \<and> map_option r_type (t_result t) = Some TypeNew) ts)"
    and uc: "s_updatedCount st' =
               length (filter (\<lambda>t. success t \<and> map_option r_type (t_result t) \<noteq> Some TypeNew) ts)"
    by auto
  have len: "length ts = length (workLogEntries svc)"
    using ents by (metis length_map)
  have pr: "processAllEntries svc rt w =
              Some (buildProcessingResult ts st' (length (workLogEntries svc)), w')"
    using run by (simp add: processAllEntries_def)
  show ?thesis
    using pr ents ec cc uc len length_filter_three[of ts]
    by (intro exI[of _ "buildProcessingResult ts st' (length (workLogEntries svc))"] exI[of _ w'])
       (simp add: buildProcessingResult_def)
qed


theorem processAllEntries_counts_witness:
  "\<exists>pr w'. processAllEntries exampleService exampleRuntime exampleWorld = Some (pr, w')
      \<and> map success (results pr) = [False, True, True]
      \<and> createdCount pr = 1 \<and> updatedCount pr = 1 \<and> errorCount pr = 1 \<and> successCount pr = 2
      \<and> createdCount pr + updatedCount pr + errorCount pr = length (workLogEntries exampleService)"
proof -
  from processAllEntries_counts[of exampleService exampleRuntime exampleWorld] obtain pr w' where
    run: "processAllEntries exampleService exampleRuntime exampleWorld = Some (pr, w')"
    and total: "createdCount pr + updatedCount pr + errorCount pr = length (workLogEntries exampleService)"
    by blast
  have ev: "map_option (\<lambda>(pr, w'). (map success (results pr), createdCount pr, updatedCount pr,
                                     errorCount pr, successCount pr))
              (processAllEntries exampleService exampleRuntime exampleWorld)
            = Some ([False, True, True], 1, 1, 1, 2)"
    by code_simp
  from ev run have "map success (results pr) = [False, True, True]" "createdCount pr = 1"
    "updatedCount pr = 1" "errorCount pr = 1" "successCount pr = 2"
    by simp_all
  with run total show ?thesis by (intro exI[of _ pr] exI[of _ w']) simp
qed

text \<open>
  Claim C7. In both pipelines an error thrown while the entry at index \<open>k\<close> is
  processed is caught there: the run returns, the result at index \<open>k\<close> records the
  failure with the error thrown, there is one result for each entry in the order of
  the entries, the loop goes on with the entries after \<open>k\<close> from the state that the
  failed entry left, and the count of failures is the number of failed results.
\<close>

theorem failures_are_local:
  "(k < length (workLogEntries svc)
      \<and> processEntriesLoop svc rt (take k (workLogEntries svc))
            ([], \<lparr>s_createdCount = 0, s_updatedCount = 0, s_errorCount = 0\<rparr>) w = Some ((rs, st), wk)
      \<and> processEntry svc rt (workLogEntries svc ! k) wk = Some (Inl err, wk') \<longrightarrow>
    (\<exists>pr w'. processAllEntries svc rt w = Some (pr, w')
        \<and> map t_entry (results pr) = workLogEntries svc
        \<and> results pr ! k =
            \<lparr>success = False, t_entry = workLogEntries svc ! k, t_result = None, t_error = Some err\<rparr>
        \<and> errorCount pr = length (filter (\<lambda>t. \<not> success t) (results pr))
        \<and> (\<exists>st'. processEntriesLoop svc rt (drop (Suc k) (workLogEntries svc))
              (rs @ [\<lparr>success = False, t_entry = workLogEntries svc ! k, t_result = None,
                      t_error = Some err\<rparr>],
               st\<lparr>s_errorCount := s_errorCount st + 1\<rparr>) wk' = Some ((results pr, st'), w'))))
   \<and> (k < length es
      \<and> processWorkLogEntriesFrom rt (take k es) 0 dt \<lparr>successful = 0, failed = 0, details = []\<rparr> w
            = Some (res, wk)
      \<and> tryProcessWorkLogEntry rt (es ! k) dt (createEntryDetail (es ! k) k) res wk
            = Some (Inl (err, d1), wk') \<longrightarrow>
    (\<exists>res' w'. processWorkLogEntries rt es dt w = Some (res', w')
        \<and> map d_index (details res') = [1..<1 + length es]
        \<and> map d_subject (details res') = map subject es
        \<and> details res' ! k = d1\<lparr>d_status := Some status_error, d_error := Some err\<rparr>
        \<and> failed res' = length (filter (\<lambda>d. d_status d = Some status_error) (details res'))
        \<and> successful res' + failed res' = length es
        \<and> processWorkLogEntriesFrom rt (drop (Suc k) es) (Suc k) dt
              (res\<lparr>failed := failed res + 1,
                   details := details res @ [d1\<lparr>d_status := Some status_error, d_error := Some err\<rparr>]\<rparr>) wk'
            = Some (res', w')))"
proof (intro conjI impI)
  let ?es = "workLogEntries svc"
  let ?st0 = "\<lparr>s_createdCount = 0, s_updatedCount = 0, s_errorCount = 0\<rparr>"
  let ?f = "\<lparr>success = False, t_entry = ?es ! k, t_result = None, t_error = Some err\<rparr>"
  assume h: "k < length ?es
      \<and> processEntriesLoop svc rt (take k ?es) ([], ?st0) w = Some ((rs, st), wk)
      \<and> processEntry svc rt (?es ! k) wk = Some (Inl err, wk')"
  then have k: "k < length ?es"
    and pre: "processEntriesLoop svc rt (take k ?es) ([], ?st0) w = Some ((rs, st), wk)"
    and thr: "processEntry svc rt (?es ! k) wk = Some (Inl err, wk')" by auto
  from processEntriesLoop_shape[of svc rt "take k ?es" "[]" ?st0 w] pre
  have lrs: "length rs = k" using k by (auto dest!: arg_cong[where f = length])
  have step: "processAndTrackEntry svc rt (?es ! k) (rs, st) wk
                = Some ((rs @ [?f], st\<lparr>s_errorCount := s_errorCount st + 1\<rparr>), wk')"
    using processAndTrackEntry_eq[OF thr] by (simp add: track_def count_def)
  from processEntriesLoop_shape[of svc rt "drop (Suc k) ?es" "rs @ [?f]"
         "st\<lparr>s_errorCount := s_errorCount st + 1\<rparr>" wk']
  obtain ts st' w' where
    post: "processEntriesLoop svc rt (drop (Suc k) ?es) (rs @ [?f], st\<lparr>s_errorCount := s_errorCount st + 1\<rparr>) wk'
             = Some (((rs @ [?f]) @ ts, st'), w')"
    by blast
  have split: "?es = take k ?es @ [?es ! k] @ drop (Suc k) ?es"
    using k by (simp add: id_take_nth_drop[symmetric])
  have whole: "processEntriesLoop svc rt ?es ([], ?st0) w = Some (((rs @ [?f]) @ ts, st'), w')"
    using post by (subst split) (simp add: processEntriesLoop_append pre step)
  from processEntriesLoop_shape[of svc rt ?es "[]" ?st0 w] whole
  have ents: "map t_entry ((rs @ [?f]) @ ts) = ?es"
    and ec: "s_errorCount st' = length (filter (\<lambda>t. \<not> success t) ((rs @ [?f]) @ ts))"
    by auto
  let ?pr = "buildProcessingResult ((rs @ [?f]) @ ts) st' (length ?es)"
  have pa: "processAllEntries svc rt w = Some (?pr, w')"
    using whole by (simp add: processAllEntries_def)
  have nth: "((rs @ [?f]) @ ts) ! k = ?f"
    using lrs by (simp add: nth_append)
  have "processAllEntries svc rt w = Some (?pr, w')
        \<and> map t_entry (results ?pr) = ?es
        \<and> results ?pr ! k = ?f
        \<and> errorCount ?pr = length (filter (\<lambda>t. \<not> success t) (results ?pr))
        \<and> (\<exists>st'. processEntriesLoop svc rt (drop (Suc k) ?es)
              (rs @ [?f], st\<lparr>s_errorCount := s_errorCount st + 1\<rparr>) wk' = Some ((results ?pr, st'), w'))"
    using pa ents nth ec post by (simp add: buildProcessingResult_def)
  then show "\<exists>pr w'. processAllEntries svc rt w = Some (pr, w')
        \<and> map t_entry (results pr) = ?es
        \<and> results pr ! k = ?f
        \<and> errorCount pr = length (filter (\<lambda>t. \<not> success t) (results pr))
        \<and> (\<exists>st'. processEntriesLoop svc rt (drop (Suc k) ?es)
              (rs @ [?f], st\<lparr>s_errorCount := s_errorCount st + 1\<rparr>) wk' = Some ((results pr, st'), w'))"
    by blast
next
  let ?r0 = "\<lparr>successful = 0, failed = 0, details = []\<rparr>"
  let ?d = "d1\<lparr>d_status := Some status_error, d_error := Some err\<rparr>"
  let ?res1 = "res\<lparr>failed := failed res + 1, details := details res @ [?d]\<rparr>"
  assume h: "k < length es
      \<and> processWorkLogEntriesFrom rt (take k es) 0 dt ?r0 w = Some (res, wk)
      \<and> tryProcessWorkLogEntry rt (es ! k) dt (createEntryDetail (es ! k) k) res wk
            = Some (Inl (err, d1), wk')"
  then have k: "k < length es"
    and pre: "processWorkLogEntriesFrom rt (take k es) 0 dt ?r0 w = Some (res, wk)"
    and thr: "tryProcessWorkLogEntry rt (es ! k) dt (createEntryDetail (es ! k) k) res wk
            = Some (Inl (err, d1), wk')" by auto
  from processWorkLogEntriesFrom_shape[of rt "take k es" 0 dt ?r0 w] pre
  have lres: "length (details res) = k"
    using k by (auto dest!: arg_cong[where f = length])
  have step: "processWorkLogEntry rt (es ! k) k dt res wk = Some (?res1, wk')"
    using processWorkLogEntry_eq[OF thr] by (simp add: finish_def)
  from processWorkLogEntriesFrom_shape[of rt "drop (Suc k) es" "Suc k" dt ?res1 wk']
  obtain ds res' w' where
    post: "processWorkLogEntriesFrom rt (drop (Suc k) es) (Suc k) dt ?res1 wk' = Some (res', w')"
    and det: "details res' = details ?res1 @ ds"
    by blast
  have split: "es = take k es @ [es ! k] @ drop (Suc k) es"
    using k by (simp add: id_take_nth_drop[symmetric])
  have lk: "min (length es) k = k" using k by simp
  have whole: "processWorkLogEntriesFrom rt es 0 dt ?r0 w = Some (res', w')"
    using post by (subst split) (simp add: processWorkLogEntriesFrom_append pre step lk)
  from processWorkLogEntriesFrom_shape[of rt es 0 dt ?r0 w] whole
  have idx: "map d_index (details res') = [1..<1 + length es]"
    and subj: "map d_subject (details res') = map subject es"
    and fl: "failed res' = length (filter isError (details res'))"
    and sc: "successful res' = length (filter (\<lambda>d. \<not> isError d) (details res'))"
    by auto
  have len: "length (details res') = length es"
    using subj by (metis length_map)
  have tot: "successful res' + failed res' = length es"
    using fl sc len sum_length_filter_compl[of isError "details res'"] by simp
  have nth: "details res' ! k = ?d"
    using lres det by (simp add: nth_append)
  show "\<exists>res' w'. processWorkLogEntries rt es dt w = Some (res', w')
        \<and> map d_index (details res') = [1..<1 + length es]
        \<and> map d_subject (details res') = map subject es
        \<and> details res' ! k = ?d
        \<and> failed res' = length (filter (\<lambda>d. d_status d = Some status_error) (details res'))
        \<and> successful res' + failed res' = length es
        \<and> processWorkLogEntriesFrom rt (drop (Suc k) es) (Suc k) dt ?res1 wk' = Some (res', w')"
    using whole idx subj nth fl tot post
    by (intro exI[of _ res'] exI[of _ w']) (simp add: processWorkLogEntries_def isError_def[abs_def])
qed

theorem failures_are_local_witness:
  "(\<exists>pr w'. processAllEntries exampleService exampleRuntime exampleWorld = Some (pr, w')
      \<and> map t_entry (results pr) = [exampleBadEntry, exampleLinkedEntry, exampleEntry]
      \<and> results pr ! 0 = \<lparr>success = False, t_entry = exampleBadEntry, t_result = None,
                            t_error = Some (InvalidHours (Some 0))\<rparr>
      \<and> errorCount pr = length (filter (\<lambda>t. \<not> success t) (results pr)))
   \<and> (\<exists>res' w'. processWorkLogEntries exampleRuntime
                    [exampleBadEntry, exampleLinkedEntry, exampleEntry] ''2025-10-23'' exampleWorld
                  = Some (res', w')
      \<and> map d_index (details res') = [1, 2, 3]
      \<and> d_status (details res' ! 0) = Some status_error
      \<and> d_error (details res' ! 0) = Some (InvalidHours (Some 0))
      \<and> successful res' + failed res' = 3)"
proof -
  let ?es = "[exampleBadEntry, exampleLinkedEntry, exampleEntry]"
  let ?st0 = "\<lparr>s_createdCount = 0, s_updatedCount = 0, s_errorCount = 0\<rparr>"
  let ?r0 = "\<lparr>successful = 0, failed = 0, details = []\<rparr>"
  let ?d1 = "(createEntryDetail exampleBadEntry 0)
               \<lparr>d_status := Some using_existing_work_package, d_work_package_id := Some 11\<rparr>"
  have es: "workLogEntries exampleService = ?es" by (simp add: exampleService_def)
  have a1: "0 < length (workLogEntries exampleService)" by (simp add: es)
  have a2: "processEntriesLoop exampleService exampleRuntime (take 0 (workLogEntries exampleService))
              ([], ?st0) exampleWorld = Some (([], ?st0), exampleWorld)" by simp
  have a3: "processEntry exampleService exampleRuntime (workLogEntries exampleService ! 0) exampleWorld
              = Some (Inl (InvalidHours (Some 0)), exampleWorld)" by code_simp
  have b1: "0 < length ?es" by simp
  have b2: "processWorkLogEntriesFrom exampleRuntime (take 0 ?es) 0 ''2025-10-23'' ?r0 exampleWorld
              = Some (?r0, exampleWorld)" by simp
  have b3: "tryProcessWorkLogEntry exampleRuntime (?es ! 0) ''2025-10-23''
              (createEntryDetail (?es ! 0) 0) ?r0 exampleWorld
              = Some (Inl (InvalidHours (Some 0), ?d1), exampleWorld\<lparr>requests := [GetTimeEntries]\<rparr>)"
    by code_simp
  note inst1 = failures_are_local[where k = 0 and svc = exampleService and rt = exampleRuntime
      and w = exampleWorld and rs = "[]" and st = ?st0 and wk = exampleWorld
      and err = "InvalidHours (Some 0)" and wk' = exampleWorld]
  note inst2 = failures_are_local[where k = 0 and rt = exampleRuntime and w = exampleWorld
      and wk = exampleWorld and err = "InvalidHours (Some 0)"
      and wk' = "exampleWorld\<lparr>requests := [GetTimeEntries]\<rparr>" and es = ?es
      and dt = "''2025-10-23''" and res = ?r0 and ?d1.0 = ?d1]
  from inst1[THEN conjunct1] a1 a2 a3 obtain pr w' where
    p: "processAllEntries exampleService exampleRuntime exampleWorld = Some (pr, w')"
      "map t_entry (results pr) = workLogEntries exampleService"
      "results pr ! 0 = \<lparr>success = False, t_entry = workLogEntries exampleService ! 0, t_result = None,
                            t_error = Some (InvalidHours (Some 0))\<rparr>"
      "errorCount pr = length (filter (\<lambda>t. \<not> success t) (results pr))"
    by blast
  from inst2[THEN conjunct2] b1 b2 b3 obtain res' w'' where
    q: "processWorkLogEntries exampleRuntime ?es ''2025-10-23'' exampleWorld = Some (res', w'')"
      "map d_index (details res') = [1..<1 + length ?es]"
      "details res' ! 0 = ?d1\<lparr>d_status := Some status_error, d_error := Some (InvalidHours (Some 0))\<rparr>"
      "successful res' + failed res' = length ?es"
    by blast
  have idx: "[1..<1 + length ?es] = [1, 2, 3]" by (simp add: upt_rec)
  from p have P: "\<exists>pr w'. processAllEntries exampleService exampleRuntime exampleWorld = Some (pr, w')
      \<and> map t_entry (results pr) = ?es
      \<and> results pr ! 0 = \<lparr>success = False, t_entry = exampleBadEntry, t_result = None,
                            t_error = Some (InvalidHours (Some 0))\<rparr>
      \<and> errorCount pr = length (filter (\<lambda>t. \<not> success t) (results pr))"
    by (simp add: es)
  from q idx have Q: "\<exists>res' w'. processWorkLogEntries exampleRuntime ?es ''2025-10-23'' exampleWorld
                  = Some (res', w')
      \<and> map d_index (details res') = [1, 2, 3]
      \<and> d_status (details res' ! 0) = Some status_error
      \<and> d_error (details res' ! 0) = Some (InvalidHours (Some 0))
      \<and> successful res' + failed res' = 3"
    by simp
  from P Q show ?thesis by blast
qed


section \<open>Time entries that exist already\<close>

text \<open>
  Notions for the proofs of this section. A world is \<open>quiet\<close> when no outage hits a
  request from now on. An entry \<open>resolve\<close>s to the id of its linked work package or
  of the first work package of its project with an equal normalized subject. It is
  \<open>settled\<close> for a date when it resolves and the remote system holds a time entry for
  that id and date, and \<open>stable\<close> when it is settled or resolves and
  \<open>createTimeEntry\<close> rejects its date or its hours before any request. One world
  \<open>grows\<close> into another by appended work packages, time entries and requests.
\<close>

definition quiet :: "world \<Rightarrow> bool" where
  "quiet w = (\<forall>i \<ge> length (requests w). outage w i = None)"

definition isGet :: "request \<Rightarrow> bool" where
  "isGet rq = (case rq of GetWorkPackages p s k \<Rightarrow> True | GetTimeEntries \<Rightarrow> True | _ \<Rightarrow> False)"

definition matchesEntry :: "runtime \<Rightarrow> nat \<Rightarrow> string \<Rightarrow> time_entry \<Rightarrow> bool" where
  "matchesEntry rt n dt te =
     (spentOn te = formatDateForComparison rt dt \<and> entryWorkPackageId te = Some (showNat n))"

definition resolve :: "world \<Rightarrow> entry \<Rightarrow> nat option" where
  "resolve w e =
     (case truthy (work_package_id e) of
        Some n \<Rightarrow> Some n
      | None \<Rightarrow> map_option wp_id
          (findMatchingWorkPackage (projectWorkPackages w (project_id e))
             (toLowerCase (trim (subject e)))))"

definition invalid :: "runtime \<Rightarrow> string \<Rightarrow> entry \<Rightarrow> bool" where
  "invalid rt dt e = (isl (parseAndFormatDate rt dt) \<or> isl (validateHours (hours e)))"

definition settled :: "runtime \<Rightarrow> string \<Rightarrow> world \<Rightarrow> entry \<Rightarrow> bool" where
  "settled rt dt w e =
     (case resolve w e of None \<Rightarrow> False
      | Some n \<Rightarrow> filter (matchesEntry rt n dt) (time_entries w) \<noteq> [])"

definition stable :: "runtime \<Rightarrow> string \<Rightarrow> world \<Rightarrow> entry \<Rightarrow> bool" where
  "stable rt dt w e =
     (case resolve w e of None \<Rightarrow> False
      | Some n \<Rightarrow> filter (matchesEntry rt n dt) (time_entries w) \<noteq> [] \<or> invalid rt dt e)"

definition grows :: "world \<Rightarrow> world \<Rightarrow> bool" where
  "grows w w' =
     (\<exists>W T R. work_packages w' = work_packages w @ W \<and> time_entries w' = time_entries w @ T
        \<and> requests w' = requests w @ R \<and> outages w' = outages w)"

lemma grows_refl [simp]: "grows w w"
  by (auto simp: grows_def)

lemma grows_trans: "grows a b \<Longrightarrow> grows b c \<Longrightarrow> grows a c"
  by (auto simp: grows_def)

lemma quiet_grows: "quiet w \<Longrightarrow> grows w w' \<Longrightarrow> quiet w'"
  by (auto simp: quiet_def grows_def outage_def)

lemma grows_requests [simp]: "grows w (w\<lparr>requests := requests w @ R\<rparr>)"
  by (auto simp: grows_def)

lemma projectWorkPackages_append:
  "work_packages w' = work_packages w @ W \<Longrightarrow>
   projectWorkPackages w' p = projectWorkPackages w p @ map snd (filter (\<lambda>x. fst x = p) W)"
  by (simp add: projectWorkPackages_def)

lemma find_mono:
  "findMatchingWorkPackage xs q = Some wp \<Longrightarrow> findMatchingWorkPackage (xs @ ys) q = Some wp"
  by (simp add: find_append)

lemma resolve_grows: "resolve w e = Some n \<Longrightarrow> grows w w' \<Longrightarrow> resolve w' e = Some n"
  by (auto simp: resolve_def grows_def find_append dest!: projectWorkPackages_append[where p = "project_id e"]
      split: option.splits)

lemma settled_grows: "settled rt dt w e \<Longrightarrow> grows w w' \<Longrightarrow> settled rt dt w' e"
proof -
  assume s: "settled rt dt w e" and g: "grows w w'"
  then obtain n where n: "resolve w e = Some n"
    and f: "filter (matchesEntry rt n dt) (time_entries w) \<noteq> []"
    by (auto simp: settled_def split: option.splits)
  from g obtain T where "time_entries w' = time_entries w @ T" by (auto simp: grows_def)
  with f have "filter (matchesEntry rt n dt) (time_entries w') \<noteq> []" by simp
  with resolve_grows[OF n g] show ?thesis by (simp add: settled_def)
qed

lemma stable_grows: "stable rt dt w e \<Longrightarrow> grows w w' \<Longrightarrow> stable rt dt w' e"
proof -
  assume s: "stable rt dt w e" and g: "grows w w'"
  then obtain n where n: "resolve w e = Some n"
    and f: "filter (matchesEntry rt n dt) (time_entries w) \<noteq> [] \<or> invalid rt dt e"
    by (auto simp: stable_def split: option.splits)
  from g obtain T where "time_entries w' = time_entries w @ T" by (auto simp: grows_def)
  with f have "filter (matchesEntry rt n dt) (time_entries w') \<noteq> [] \<or> invalid rt dt e" by auto
  with resolve_grows[OF n g] show ?thesis by (simp add: stable_def)
qed

lemma makeRequest_quiet:
  "quiet w \<Longrightarrow> makeRequest rq h w =
     (Inr (fst (h (w\<lparr>requests := requests w @ [rq]\<rparr>))), snd (h (w\<lparr>requests := requests w @ [rq]\<rparr>)))"
  by (simp add: makeRequest_def quiet_def Let_def split: prod.splits)

lemma checkExisting_quiet:
  assumes "quiet w"
  shows "\<exists>R. checkExistingWorkPackageBySubject p s w =
           Some (findMatchingWorkPackage (projectWorkPackages w p) (toLowerCase (trim s)),
                 w\<lparr>requests := requests w @ R\<rparr>)
           \<and> (\<forall>rq \<in> set R. isGet rq)"
proof -
  from searchPages_quiet[of w p "toLowerCase (trim s)"] assms obtain n where
    "searchPages p (toLowerCase (trim s)) 1 w =
       Some (Inr (findMatchingWorkPackage (projectWorkPackages w p) (toLowerCase (trim s))),
             w\<lparr>requests := requests w @ map (GetWorkPackages p 100) [1..<1 + n]\<rparr>)"
    by (auto simp: quiet_def)
  moreover have "\<forall>rq \<in> set (map (GetWorkPackages p 100) [1..<1 + n]). isGet rq"
    by (auto simp: isGet_def)
  ultimately show ?thesis
    unfolding checkExistingWorkPackageBySubject_def
    by (intro exI[of _ "map (GetWorkPackages p 100) [1..<1 + n]"]) (simp del: upt_Suc)
qed

lemma checkExistingTimeEntries_quiet:
  assumes "quiet w"
  shows "checkExistingTimeEntries rt n dt w =
           (filter (matchesEntry rt n dt) (time_entries w), w\<lparr>requests := requests w @ [GetTimeEntries]\<rparr>)"
  using assms
  by (simp add: checkExistingTimeEntries_def makeRequest_quiet listTimeEntries_def matchesEntry_def[abs_def])


lemma split_nonempty [simp]: "split c xs \<noteq> []"
  by (induction xs) (auto split: list.splits)

lemma split_single: "c \<notin> set xs \<Longrightarrow> split c xs = [xs]"
  by (induction xs) auto

lemma split_two: "c \<in> set xs \<Longrightarrow> \<exists>p q qs. split c xs = p # q # qs"
proof (induction xs)
  case Nil
  then show ?case by simp
next
  case (Cons x xs)
  show ?case
  proof (cases "x = c")
    case True
    then show ?thesis by (cases "split c xs") auto
  next
    case False
    with Cons obtain p q qs where "split c xs = p # q # qs" by auto
    with False show ?thesis by simp
  qed
qed

lemma last_split: "c \<notin> set t \<Longrightarrow> last (split c (s @ c # t)) = t"
proof (induction s)
  case Nil
  then show ?case by (simp add: split_single)
next
  case (Cons x s)
  obtain p q qs where pq: "split c (s @ c # t) = p # q # qs"
    using split_two[of c "s @ c # t"] by auto
  with Cons show ?case by auto
qed

lemma digitChar_not_slash: "d < 10 \<Longrightarrow> digitChar d \<noteq> CHR ''/''"
proof
  assume d: "d < 10" and "digitChar d = CHR ''/''"
  then have "(of_char (digitChar d) :: nat) = of_char CHR ''/''" by simp
  then show False using d by (simp add: digitChar_def)
qed

lemma showNat_no_slash: "CHR ''/'' \<notin> set (showNat n)"
proof (induction n rule: showNat.induct)
  case (1 n)
  show ?case
  proof (cases "n < 10")
    case True
    then show ?thesis using digitChar_not_slash[of n] by (subst showNat.simps) auto
  next
    case False
    then have "n mod 10 < 10" by simp
    with False 1 show ?thesis
      using digitChar_not_slash[of "n mod 10"] by (subst showNat.simps) auto
  qed
qed

lemma href_id: "last (split CHR ''/'' (''/api/v3/work_packages/'' @ showNat n)) = showNat n"
proof -
  have "''/api/v3/work_packages/'' @ showNat n = ''/api/v3/work_packages'' @ CHR ''/'' # showNat n"
    by simp
  then show ?thesis using last_split[OF showNat_no_slash] by metis
qed

lemma formatted_date:
  "CHR ''T'' \<notin> set dt \<Longrightarrow> parseAndFormatDate rt dt = Inr f \<Longrightarrow> f = formatDateForComparison rt dt"
  by (auto simp: parseAndFormatDate_def formatDateForComparison_def split: if_splits option.splits)


lemma quiet_requests [simp]: "quiet w \<Longrightarrow> quiet (w\<lparr>requests := requests w @ R\<rparr>)"
  by (rule quiet_grows[of w]) simp_all

lemma createWorkPackage_quiet_new:
  assumes "quiet w"
    and "findMatchingWorkPackage (projectWorkPackages w p) (toLowerCase (trim s)) = None"
  shows "\<exists>R. createWorkPackage p s w =
           Some (Inr \<lparr>wp_id = next_id w, wp_subject = Some s\<rparr>,
                 w\<lparr>requests := requests w @ R,
                   work_packages := work_packages w @ [(p, \<lparr>wp_id = next_id w, wp_subject = Some s\<rparr>)],
                   next_id := Suc (next_id w)\<rparr>)"
proof -
  from checkExisting_quiet[OF assms(1), of p s] assms(2) obtain R0 where
    c: "checkExistingWorkPackageBySubject p s w = Some (None, w\<lparr>requests := requests w @ R0\<rparr>)"
    by auto
  let ?w1 = "w\<lparr>requests := requests w @ R0\<rparr>"
  have q1: "quiet ?w1" using assms(1) by simp
  show ?thesis
    unfolding createWorkPackage_def c
    by (intro exI[of _ "R0 @ [PostWorkPackage p s]"])
       (simp add: makeRequest_quiet[OF q1] storeWorkPackage_def Let_def)
qed

lemma resolve_requests [simp]: "resolve (w\<lparr>requests := R\<rparr>) e = resolve w e"
  by (simp add: resolve_def split: option.splits)

lemma ensure_quiet:
  assumes "quiet w"
  shows "\<exists>n d1 w'. ensureWorkPackageExists e d w = Some (Inr (n, d1), w')
           \<and> grows w w' \<and> time_entries w' = time_entries w \<and> resolve w' e = Some n
           \<and> (resolve w e \<noteq> None \<longrightarrow>
                (\<exists>R. w' = w\<lparr>requests := requests w @ R\<rparr> \<and> (\<forall>rq \<in> set R. isGet rq)))"
proof (cases "truthy (work_package_id e)")
  case (Some n)
  then have "ensureWorkPackageExists e d w =
      Some (Inr (n, d\<lparr>d_status := Some using_existing_work_package,
                       d_work_package_id := work_package_id e\<rparr>), w)"
    by (simp add: ensureWorkPackageExists_def)
  moreover have "w = w\<lparr>requests := requests w @ []\<rparr>" by simp
  ultimately show ?thesis using Some
    by (intro exI[of _ n] exI[of _ "d\<lparr>d_status := Some using_existing_work_package,
                       d_work_package_id := work_package_id e\<rparr>"] exI[of _ w])
       (auto simp: resolve_def intro!: exI[of _ "[]"])
next
  case None
  let ?p = "project_id e" and ?q = "toLowerCase (trim (subject e))"
  from checkExisting_quiet[OF assms, of ?p "subject e"] obtain R0 where
    c: "checkExistingWorkPackageBySubject ?p (subject e) w =
          Some (findMatchingWorkPackage (projectWorkPackages w ?p) ?q,
                w\<lparr>requests := requests w @ R0\<rparr>)"
    and gets: "\<forall>rq \<in> set R0. isGet rq"
    by auto
  let ?w1 = "w\<lparr>requests := requests w @ R0\<rparr>"
  show ?thesis
  proof (cases "findMatchingWorkPackage (projectWorkPackages w ?p) ?q")
    case (Some wp)
    have "ensureWorkPackageExists e d w =
        Some (Inr (wp_id wp, d\<lparr>d_status := Some reused_existing_work_package,
                                d_work_package_id := Some (wp_id wp)\<rparr>), ?w1)"
      using None c Some by (simp add: ensureWorkPackageExists_def)
    then show ?thesis using None Some gets
      by (intro exI[of _ "wp_id wp"] exI[of _ "d\<lparr>d_status := Some reused_existing_work_package,
                                d_work_package_id := Some (wp_id wp)\<rparr>"] exI[of _ ?w1])
         (auto simp: resolve_def)
  next
    case nf: None
    have q1: "quiet ?w1" using assms by simp
    have nf1: "findMatchingWorkPackage (projectWorkPackages ?w1 ?p) ?q = None" using nf by simp
    let ?wp = "\<lparr>wp_id = next_id w, wp_subject = Some (subject e)\<rparr>"
    from createWorkPackage_quiet_new[OF q1 nf1] obtain R where
      cw: "createWorkPackage ?p (subject e) ?w1 =
             Some (Inr ?wp, ?w1\<lparr>requests := requests ?w1 @ R,
                                work_packages := work_packages ?w1 @ [(?p, ?wp)],
                                next_id := Suc (next_id ?w1)\<rparr>)"
      by auto
    let ?w2 = "?w1\<lparr>requests := requests ?w1 @ R, work_packages := work_packages ?w1 @ [(?p, ?wp)],
                    next_id := Suc (next_id ?w1)\<rparr>"
    have en: "ensureWorkPackageExists e d w =
        Some (Inr (next_id w, d\<lparr>d_status := Some created_work_package,
                                 d_work_package_id := Some (next_id w)\<rparr>), ?w2)"
      using None c nf cw by (simp add: ensureWorkPackageExists_def)
    have g: "grows w ?w2" by (auto simp: grows_def)
    have "projectWorkPackages ?w2 ?p = projectWorkPackages w ?p @ [?wp]"
      by (simp add: projectWorkPackages_def)
    then have "findMatchingWorkPackage (projectWorkPackages ?w2 ?p) ?q = Some ?wp"
      using nf by (simp add: find_append subjectOrEmpty_def)
    then have r: "resolve ?w2 e = Some (next_id w)" using None by (simp add: resolve_def)
    have r0: "resolve w e = None" using None nf by (simp add: resolve_def)
    show ?thesis
      using en g r r0
      by (intro exI[of _ "next_id w"] exI[of _ "d\<lparr>d_status := Some created_work_package,
                                 d_work_package_id := Some (next_id w)\<rparr>"] exI[of _ ?w2]) simp
  qed
qed

lemma addTimeEntry_quiet:
  assumes "quiet w"
  shows "addTimeEntry rt n e dt d rs w =
     (let w1 = w\<lparr>requests := requests w @ [GetTimeEntries]\<rparr>;
          ex = filter (matchesEntry rt n dt) (time_entries w)
      in if ex \<noteq> []
         then (Inr (d\<lparr>d_status := Some skipped_duplicate_time_entry,
                      d_existing_time_entries := Some (length ex)\<rparr>,
                    rs\<lparr>successful := successful rs + 1\<rparr>), w1)
         else (case parseAndFormatDate rt dt of
                 Inl err \<Rightarrow> (Inl err, w1)
               | Inr f \<Rightarrow>
                   (case validateHours (hours e) of
                      Inl err \<Rightarrow> (Inl err, w1)
                    | Inr h \<Rightarrow>
                        (Inr (d\<lparr>d_time_entry_id := Some (next_id w),
                                d_status := Some created_time_entry\<rparr>,
                              rs\<lparr>successful := successful rs + 1\<rparr>),
                         w\<lparr>requests := requests w @ [GetTimeEntries,
                                PostTimeEntry f h (''/api/v3/work_packages/'' @ showNat n)],
                           time_entries := time_entries w @
                             [\<lparr>te_id = next_id w, spentOn = f, te_hours = h,
                               workPackageHref = Some (''/api/v3/work_packages/'' @ showNat n)\<rparr>],
                           next_id := Suc (next_id w)\<rparr>))))"
proof -
  let ?w1 = "w\<lparr>requests := requests w @ [GetTimeEntries]\<rparr>"
  have q1: "quiet ?w1" using assms by simp
  show ?thesis
    unfolding addTimeEntry_def checkExistingTimeEntries_quiet[OF assms] createTimeEntry_def
    by (simp add: Let_def makeRequest_quiet[OF q1] storeTimeEntry_def split: sum.splits)
qed


lemma resolve_cong: "work_packages w' = work_packages w \<Longrightarrow> resolve w' e = resolve w e"
  by (simp add: resolve_def projectWorkPackages_def split: option.splits)

lemma settled_requests [simp]: "settled rt dt (w\<lparr>requests := R\<rparr>) e = settled rt dt w e"
  by (simp add: settled_def split: option.splits)

lemma stable_requests [simp]: "stable rt dt (w\<lparr>requests := R\<rparr>) e = stable rt dt w e"
  by (simp add: stable_def split: option.splits)

lemma try_establishes:
  assumes "quiet w" and "CHR ''T'' \<notin> set dt"
  shows "\<exists>out w'. tryProcessWorkLogEntry rt e dt d rs w = Some (out, w')
           \<and> grows w w' \<and> stable rt dt w' e \<and> (\<not> isl out \<longrightarrow> settled rt dt w' e)"
proof -
  from ensure_quiet[OF assms(1), of e d] obtain n d1 w1 where
    en: "ensureWorkPackageExists e d w = Some (Inr (n, d1), w1)"
    and g1: "grows w w1" and r1: "resolve w1 e = Some n"
    by blast
  have q1: "quiet w1" using quiet_grows[OF assms(1) g1] .
  let ?w2 = "w1\<lparr>requests := requests w1 @ [GetTimeEntries]\<rparr>"
  let ?ex = "filter (matchesEntry rt n dt) (time_entries w1)"
  have g2: "grows w ?w2" using g1 grows_trans by (metis grows_requests)
  have r2: "resolve ?w2 e = Some n" using r1 by simp
  note at = addTimeEntry_quiet[OF q1, of rt n e dt d1 rs]
  have try_eq: "tryProcessWorkLogEntry rt e dt d rs w =
      (case addTimeEntry rt n e dt d1 rs w1 of
         (Inl err, w'') \<Rightarrow> Some (Inl (err, d1), w'')
       | (Inr (d2, results'), w'') \<Rightarrow> Some (Inr (d2, results'), w''))"
    using en by (simp add: tryProcessWorkLogEntry_def)
  show ?thesis
  proof (cases "?ex \<noteq> []")
    case True
    then have "tryProcessWorkLogEntry rt e dt d rs w =
        Some (Inr (d1\<lparr>d_status := Some skipped_duplicate_time_entry,
                      d_existing_time_entries := Some (length ?ex)\<rparr>,
                   rs\<lparr>successful := successful rs + 1\<rparr>), ?w2)"
      unfolding try_eq at by (simp add: Let_def)
    moreover have "settled rt dt ?w2 e" using True r1 by (simp add: settled_def)
    moreover have "stable rt dt ?w2 e" using True r1 by (simp add: stable_def)
    ultimately show ?thesis using g2 by blast
  next
    case False
    show ?thesis
    proof (cases "parseAndFormatDate rt dt")
      case (Inl err)
      then have "tryProcessWorkLogEntry rt e dt d rs w = Some (Inl (err, d1), ?w2)"
        unfolding try_eq at using False by (simp add: Let_def)
      moreover have "stable rt dt ?w2 e" using Inl r1 by (simp add: stable_def invalid_def)
      ultimately show ?thesis using g2 by (intro exI[of _ "Inl (err, d1)"] exI[of _ ?w2]) simp
    next
      case (Inr f)
      show ?thesis
      proof (cases "validateHours (hours e)")
        case (Inl err)
        then have "tryProcessWorkLogEntry rt e dt d rs w = Some (Inl (err, d1), ?w2)"
          unfolding try_eq at using False Inr by (simp add: Let_def)
        moreover have "stable rt dt ?w2 e" using Inl r1 by (simp add: stable_def invalid_def)
        ultimately show ?thesis using g2 by (intro exI[of _ "Inl (err, d1)"] exI[of _ ?w2]) simp
      next
        case h: (Inr h)
        let ?href = "''/api/v3/work_packages/'' @ showNat n"
        let ?te = "\<lparr>te_id = next_id w1, spentOn = f, te_hours = h, workPackageHref = Some ?href\<rparr>"
        let ?w3 = "w1\<lparr>requests := requests w1 @ [GetTimeEntries, PostTimeEntry f h ?href],
                       time_entries := time_entries w1 @ [?te], next_id := Suc (next_id w1)\<rparr>"
        let ?d2 = "d1\<lparr>d_time_entry_id := Some (next_id w1), d_status := Some created_time_entry\<rparr>"
        have t: "tryProcessWorkLogEntry rt e dt d rs w =
            Some (Inr (?d2, rs\<lparr>successful := successful rs + 1\<rparr>), ?w3)"
          unfolding try_eq at using False Inr h by (simp add: Let_def)
        have "grows w1 ?w3" by (auto simp: grows_def)
        then have g3: "grows w ?w3" using g1 grows_trans by blast
        have r3: "resolve ?w3 e = Some n" using r1 resolve_cong[of ?w3 w1 e] by simp
        have m: "matchesEntry rt n dt ?te"
          using formatted_date[OF assms(2) Inr] href_id[of n]
          by (simp add: matchesEntry_def entryWorkPackageId_def)
        then have "filter (matchesEntry rt n dt) (time_entries ?w3) \<noteq> []" by simp
        then have "settled rt dt ?w3 e" "stable rt dt ?w3 e"
          using r3 by (simp_all add: settled_def stable_def)
        then show ?thesis using t g3 by blast
      qed
    qed
  qed
qed

lemma try_stable:
  assumes "quiet w" and "stable rt dt w e"
  shows "\<exists>out R. tryProcessWorkLogEntry rt e dt d rs w = Some (out, w\<lparr>requests := requests w @ R\<rparr>)
           \<and> (\<forall>rq \<in> set R. isGet rq)
           \<and> (settled rt dt w e \<longrightarrow>
                (\<exists>d2. out = Inr (d2, rs\<lparr>successful := successful rs + 1\<rparr>)
                      \<and> d_status d2 = Some skipped_duplicate_time_entry))"
proof -
  from assms(2) obtain m where m: "resolve w e = Some m"
    and st: "filter (matchesEntry rt m dt) (time_entries w) \<noteq> [] \<or> invalid rt dt e"
    by (auto simp: stable_def split: option.splits)
  from ensure_quiet[OF assms(1), of e d] m obtain n d1 R1 where
    en: "ensureWorkPackageExists e d w = Some (Inr (n, d1), w\<lparr>requests := requests w @ R1\<rparr>)"
    and r1: "resolve (w\<lparr>requests := requests w @ R1\<rparr>) e = Some n"
    and gets: "\<forall>rq \<in> set R1. isGet rq"
    by (metis option.distinct(1))
  let ?w1 = "w\<lparr>requests := requests w @ R1\<rparr>"
  have nm: "n = m" using r1 m by simp
  have q1: "quiet ?w1" using assms(1) by simp
  let ?w2 = "w\<lparr>requests := requests w @ (R1 @ [GetTimeEntries])\<rparr>"
  have w2: "?w1\<lparr>requests := requests ?w1 @ [GetTimeEntries]\<rparr> = ?w2" by simp
  have gets2: "\<forall>rq \<in> set (R1 @ [GetTimeEntries]). isGet rq"
    using gets by (auto simp: isGet_def)
  let ?ex = "filter (matchesEntry rt n dt) (time_entries w)"
  note at = addTimeEntry_quiet[OF q1, of rt n e dt d1 rs]
  have try_eq: "tryProcessWorkLogEntry rt e dt d rs w =
      (case addTimeEntry rt n e dt d1 rs ?w1 of
         (Inl err, w'') \<Rightarrow> Some (Inl (err, d1), w'')
       | (Inr (d2, results'), w'') \<Rightarrow> Some (Inr (d2, results'), w''))"
    using en by (simp add: tryProcessWorkLogEntry_def)
  show ?thesis
  proof (cases "?ex \<noteq> []")
    case True
    then have "tryProcessWorkLogEntry rt e dt d rs w =
        Some (Inr (d1\<lparr>d_status := Some skipped_duplicate_time_entry,
                      d_existing_time_entries := Some (length ?ex)\<rparr>,
                   rs\<lparr>successful := successful rs + 1\<rparr>), ?w2)"
      unfolding try_eq at by (simp add: Let_def)
    then show ?thesis using gets2
      by (intro exI[of _ "Inr (d1\<lparr>d_status := Some skipped_duplicate_time_entry,
                      d_existing_time_entries := Some (length ?ex)\<rparr>,
                   rs\<lparr>successful := successful rs + 1\<rparr>)"] exI[of _ "R1 @ [GetTimeEntries]"]) simp
  next
    case False
    then have inv: "invalid rt dt e" using st nm by simp
    have ns: "\<not> settled rt dt w e" using False m nm by (simp add: settled_def)
    have "\<exists>err. tryProcessWorkLogEntry rt e dt d rs w = Some (Inl (err, d1), ?w2)"
    proof (cases "parseAndFormatDate rt dt")
      case (Inl err)
      then show ?thesis unfolding try_eq at using False by (simp add: Let_def)
    next
      case (Inr f)
      then obtain err where "validateHours (hours e) = Inl err"
        using inv by (cases "validateHours (hours e)") (auto simp: invalid_def)
      then show ?thesis unfolding try_eq at using False Inr by (simp add: Let_def)
    qed
    then obtain err where "tryProcessWorkLogEntry rt e dt d rs w = Some (Inl (err, d1), ?w2)" ..
    then show ?thesis using gets2 ns
      by (intro exI[of _ "Inl (err, d1)"] exI[of _ "R1 @ [GetTimeEntries]"]) simp
  qed
qed


lemma run_establishes:
  assumes "quiet w" and "CHR ''T'' \<notin> set dt"
  shows "\<exists>rs' w' ds. processWorkLogEntriesFrom rt es i dt rs w = Some (rs', w')
           \<and> grows w w' \<and> details rs' = details rs @ ds \<and> length ds = length es
           \<and> (\<forall>j < length es. stable rt dt w' (es ! j)
                  \<and> (\<not> isError (ds ! j) \<longrightarrow> settled rt dt w' (es ! j)))"
  using assms(1)
proof (induction es arbitrary: i rs w)
  case Nil
  show ?case by (intro exI[of _ rs] exI[of _ w] exI[of _ "[]"]) simp
next
  case (Cons e es)
  from try_establishes[OF Cons.prems assms(2), of rt e "createEntryDetail e i" rs] obtain out w1 where
    t: "tryProcessWorkLogEntry rt e dt (createEntryDetail e i) rs w = Some (out, w1)"
    and g1: "grows w w1" and st1: "stable rt dt w1 e"
    and se1: "\<not> isl out \<longrightarrow> settled rt dt w1 e"
    by blast
  have q1: "quiet w1" using quiet_grows[OF Cons.prems g1] .
  from finish_shape[OF t] obtain d where
    fin: "details (finish rs out) = details rs @ [d]"
    and err: "\<forall>err d1. out = Inl (err, d1) \<longrightarrow> d = d1\<lparr>d_status := Some status_error, d_error := Some err\<rparr>"
    by auto
  have ok: "\<not> isError d \<longrightarrow> \<not> isl out"
  proof (cases out)
    case (Inl p)
    then show ?thesis using err by (cases p) (auto simp: isError_def)
  next
    case (Inr q)
    then show ?thesis by simp
  qed
  from Cons.IH[OF q1, of "i + 1" "finish rs out"] obtain rs' w' ds where
    run: "processWorkLogEntriesFrom rt es (i + 1) dt (finish rs out) w1 = Some (rs', w')"
    and g2: "grows w1 w'" and det: "details rs' = details (finish rs out) @ ds"
    and len: "length ds = length es"
    and all: "\<forall>j < length es. stable rt dt w' (es ! j)
                  \<and> (\<not> isError (ds ! j) \<longrightarrow> settled rt dt w' (es ! j))"
    by blast
  have r: "processWorkLogEntriesFrom rt (e # es) i dt rs w = Some (rs', w')"
    using processWorkLogEntry_eq[OF t] run by simp
  have g: "grows w w'" using g1 g2 grows_trans by blast
  have st: "stable rt dt w' e" using stable_grows[OF st1 g2] .
  have se: "\<not> isError d \<longrightarrow> settled rt dt w' e"
    using ok se1 settled_grows[OF _ g2] by blast
  have all': "\<forall>j < length (e # es). stable rt dt w' ((e # es) ! j)
                  \<and> (\<not> isError ((d # ds) ! j) \<longrightarrow> settled rt dt w' ((e # es) ! j))"
  proof (intro allI impI)
    fix j assume "j < length (e # es)"
    then show "stable rt dt w' ((e # es) ! j)
                  \<and> (\<not> isError ((d # ds) ! j) \<longrightarrow> settled rt dt w' ((e # es) ! j))"
      using st se all by (cases j) auto
  qed
  show ?case
    using r g det fin len all'
    by (intro exI[of _ rs'] exI[of _ w'] exI[of _ "d # ds"]) simp
qed

lemma run_stable:
  assumes "quiet w" and "\<forall>e \<in> set es. stable rt dt w e"
  shows "\<exists>rs' R ds. processWorkLogEntriesFrom rt es i dt rs w
              = Some (rs', w\<lparr>requests := requests w @ R\<rparr>)
           \<and> (\<forall>rq \<in> set R. isGet rq)
           \<and> details rs' = details rs @ ds \<and> length ds = length es
           \<and> (\<forall>j < length es. settled rt dt w (es ! j) \<longrightarrow>
                  d_status (ds ! j) = Some skipped_duplicate_time_entry)"
  using assms
proof (induction es arbitrary: i rs w)
  case Nil
  show ?case by (intro exI[of _ rs] exI[of _ "[]"]) simp
next
  case (Cons e es)
  have se: "stable rt dt w e" using Cons.prems(2) by simp
  from try_stable[OF Cons.prems(1) se, of "createEntryDetail e i" rs] obtain out R1 where
    t: "tryProcessWorkLogEntry rt e dt (createEntryDetail e i) rs w
          = Some (out, w\<lparr>requests := requests w @ R1\<rparr>)"
    and gets1: "\<forall>rq \<in> set R1. isGet rq"
    and skip: "settled rt dt w e \<longrightarrow>
                (\<exists>d2. out = Inr (d2, rs\<lparr>successful := successful rs + 1\<rparr>)
                      \<and> d_status d2 = Some skipped_duplicate_time_entry)"
    by blast
  let ?w1 = "w\<lparr>requests := requests w @ R1\<rparr>"
  have q1: "quiet ?w1" using Cons.prems(1) by simp
  have st1: "\<forall>x \<in> set es. stable rt dt ?w1 x" using Cons.prems(2) by simp
  from finish_shape[OF t] obtain d where
    fin: "details (finish rs out) = details rs @ [d]"
    by auto
  have ds: "settled rt dt w e \<longrightarrow> d_status d = Some skipped_duplicate_time_entry"
  proof
    assume "settled rt dt w e"
    with skip obtain d2 where "out = Inr (d2, rs\<lparr>successful := successful rs + 1\<rparr>)"
      and "d_status d2 = Some skipped_duplicate_time_entry" by blast
    then show "d_status d = Some skipped_duplicate_time_entry"
      using fin by (simp add: finish_def)
  qed
  from Cons.IH[OF q1 st1, of "i + 1" "finish rs out"] obtain rs' R2 ds where
    run: "processWorkLogEntriesFrom rt es (i + 1) dt (finish rs out) ?w1
            = Some (rs', ?w1\<lparr>requests := requests ?w1 @ R2\<rparr>)"
    and gets2: "\<forall>rq \<in> set R2. isGet rq"
    and det: "details rs' = details (finish rs out) @ ds"
    and len: "length ds = length es"
    and all: "\<forall>j < length es. settled rt dt ?w1 (es ! j) \<longrightarrow>
                  d_status (ds ! j) = Some skipped_duplicate_time_entry"
    by blast
  have r: "processWorkLogEntriesFrom rt (e # es) i dt rs w
             = Some (rs', w\<lparr>requests := requests w @ (R1 @ R2)\<rparr>)"
    using processWorkLogEntry_eq[OF t] run by simp
  have all': "\<forall>j < length (e # es). settled rt dt w ((e # es) ! j) \<longrightarrow>
                  d_status ((d # ds) ! j) = Some skipped_duplicate_time_entry"
  proof (intro allI impI)
    fix j assume "j < length (e # es)" and "settled rt dt w ((e # es) ! j)"
    then show "d_status ((d # ds) ! j) = Some skipped_duplicate_time_entry"
      using ds all by (cases j) auto
  qed
  have gets: "\<forall>rq \<in> set (R1 @ R2). isGet rq" using gets1 gets2 by auto
  show ?case
    using r gets det fin len all'
    by (intro exI[of _ rs'] exI[of _ "R1 @ R2"] exI[of _ "d # ds"]) simp
qed

lemma checkExistingTimeEntries_answered:
  assumes "outage w (length (requests w)) = None"
  shows "checkExistingTimeEntries rt n dt w =
           (filter (\<lambda>te. spentOn te = formatDateForComparison rt dt
                       \<and> entryWorkPackageId te = Some (showNat n)) (time_entries w),
            w\<lparr>requests := requests w @ [GetTimeEntries]\<rparr>)"
  using assms
  by (simp add: checkExistingTimeEntries_def makeRequest_def listTimeEntries_def Let_def)

definition exampleLoggedWorld :: world where
  "exampleLoggedWorld =
     exampleWorld\<lparr>time_entries :=
       [\<lparr>te_id = 5, spentOn = ''2025-10-23'', te_hours = 2,
         workPackageHref = Some ''/api/v3/work_packages/12''\<rparr>]\<rparr>"


lemma checkExistingTimeEntries_failed:
  "outage w (length (requests w)) = Some msg \<Longrightarrow>
     checkExistingTimeEntries rt n dt w
       = ([], w\<lparr>requests := requests w @ [GetTimeEntries],
                 console := console w @ [ErrorCheckingExistingTimeEntries (HttpError msg)]\<rparr>)"
  by (simp add: checkExistingTimeEntries_def makeRequest_def)

text \<open>
  Claim C2, amended. In the API client's pipeline: when the listing of the time
  entries is answered and holds an entry for the exact work package id and date,
  \<open>addTimeEntry\<close> creates nothing, sets the status \<open>skipped_duplicate_time_entry\<close>
  and counts the entry as successful. When the listing fails, the failure is caught
  and written to the console, no existing entry is seen, and with a valid date and valid
  hours the creation request is issued. Consequently, when no request fails and the
  date has no letter T (a canonical date has none), running \<open>processWorkLogEntries\<close>
  a second time on the remote state the first run left issues listing requests only,
  leaves the time entries and work packages as they are, and every entry that did
  not end in error in the first run ends as \<open>skipped_duplicate_time_entry\<close>.
\<close>

theorem second_run_skips:
  "(outage w0 (length (requests w0)) = None
      \<and> (\<exists>te \<in> set (time_entries w0). spentOn te = formatDateForComparison rt dt
             \<and> entryWorkPackageId te = Some (showNat n)) \<longrightarrow>
    (\<exists>k. addTimeEntry rt n e dt d rs w0 =
            (Inr (d\<lparr>d_status := Some skipped_duplicate_time_entry,
                    d_existing_time_entries := Some k\<rparr>,
                  rs\<lparr>successful := successful rs + 1\<rparr>),
             w0\<lparr>requests := requests w0 @ [GetTimeEntries]\<rparr>) \<and> 0 < k))
   \<and> ((\<forall>i \<ge> length (requests w). outage w i = None) \<and> CHR ''T'' \<notin> set dt \<longrightarrow>
    (\<exists>res1 w1 res2 w2.
        processWorkLogEntries rt es dt w = Some (res1, w1)
      \<and> processWorkLogEntries rt es dt w1 = Some (res2, w2)
      \<and> time_entries w2 = time_entries w1
      \<and> work_packages w2 = work_packages w1
      \<and> (\<forall>rq \<in> set (drop (length (requests w1)) (requests w2)).
            rq = GetTimeEntries \<or> (\<exists>p s k. rq = GetWorkPackages p s k))
      \<and> length (details res1) = length es \<and> length (details res2) = length es
      \<and> (\<forall>j < length es. d_status (details res1 ! j) \<noteq> Some status_error \<longrightarrow>
            d_status (details res2 ! j) = Some skipped_duplicate_time_entry)))
   \<and> (outage w0 (length (requests w0)) = Some msg \<longrightarrow>
        checkExistingTimeEntries rt n dt w0
          = ([], w0\<lparr>requests := requests w0 @ [GetTimeEntries],
                     console := console w0 @ [ErrorCheckingExistingTimeEntries (HttpError msg)]\<rparr>)
        \<and> (\<forall>fd h. parseAndFormatDate rt dt = Inr fd \<and> validateHours (hours e) = Inr h \<longrightarrow>
               requests (snd (addTimeEntry rt n e dt d rs w0))
                 = requests w0 @ [GetTimeEntries,
                                  PostTimeEntry fd h (''/api/v3/work_packages/'' @ showNat n)]))"
proof (intro conjI impI allI)
  assume h: "outage w0 (length (requests w0)) = None
      \<and> (\<exists>te \<in> set (time_entries w0). spentOn te = formatDateForComparison rt dt
             \<and> entryWorkPackageId te = Some (showNat n))"
  let ?ex = "filter (\<lambda>te. spentOn te = formatDateForComparison rt dt
                       \<and> entryWorkPackageId te = Some (showNat n)) (time_entries w0)"
  from h have ne: "?ex \<noteq> []" by (auto simp: filter_empty_conv)
  then have "addTimeEntry rt n e dt d rs w0 =
            (Inr (d\<lparr>d_status := Some skipped_duplicate_time_entry,
                    d_existing_time_entries := Some (length ?ex)\<rparr>,
                  rs\<lparr>successful := successful rs + 1\<rparr>),
             w0\<lparr>requests := requests w0 @ [GetTimeEntries]\<rparr>)"
    using h by (simp add: addTimeEntry_def checkExistingTimeEntries_answered)
  with ne show "\<exists>k. addTimeEntry rt n e dt d rs w0 =
            (Inr (d\<lparr>d_status := Some skipped_duplicate_time_entry,
                    d_existing_time_entries := Some k\<rparr>,
                  rs\<lparr>successful := successful rs + 1\<rparr>),
             w0\<lparr>requests := requests w0 @ [GetTimeEntries]\<rparr>) \<and> 0 < k"
    by (intro exI[of _ "length ?ex"]) simp
next
  let ?r0 = "\<lparr>successful = 0, failed = 0, details = []\<rparr>"
  assume h: "(\<forall>i \<ge> length (requests w). outage w i = None) \<and> CHR ''T'' \<notin> set dt"
  then have q: "quiet w" and nt: "CHR ''T'' \<notin> set dt" by (simp_all add: quiet_def)
  from run_establishes[OF q nt, of rt es 0 ?r0] obtain res1 w1 ds1 where
    run1: "processWorkLogEntriesFrom rt es 0 dt ?r0 w = Some (res1, w1)"
    and g: "grows w w1" and det1: "details res1 = ds1" and len1: "length ds1 = length es"
    and all1: "\<forall>j < length es. stable rt dt w1 (es ! j)
                  \<and> (\<not> isError (ds1 ! j) \<longrightarrow> settled rt dt w1 (es ! j))"
    by auto
  have q1: "quiet w1" using quiet_grows[OF q g] .
  have st: "\<forall>e \<in> set es. stable rt dt w1 e"
    using all1 by (auto simp: in_set_conv_nth)
  from run_stable[OF q1 st, of 0 ?r0] obtain res2 R ds2 where
    run2: "processWorkLogEntriesFrom rt es 0 dt ?r0 w1 = Some (res2, w1\<lparr>requests := requests w1 @ R\<rparr>)"
    and gets: "\<forall>rq \<in> set R. isGet rq"
    and det2: "details res2 = ds2" and len2: "length ds2 = length es"
    and all2: "\<forall>j < length es. settled rt dt w1 (es ! j) \<longrightarrow>
                  d_status (ds2 ! j) = Some skipped_duplicate_time_entry"
    by auto
  have gets': "\<forall>rq \<in> set R. rq = GetTimeEntries \<or> (\<exists>p s k. rq = GetWorkPackages p s k)"
  proof
    fix rq assume "rq \<in> set R"
    then have "isGet rq" using gets by blast
    then show "rq = GetTimeEntries \<or> (\<exists>p s k. rq = GetWorkPackages p s k)"
      by (cases rq) (simp_all add: isGet_def)
  qed
  have fin: "\<forall>j < length es. d_status (details res1 ! j) \<noteq> Some status_error \<longrightarrow>
            d_status (details res2 ! j) = Some skipped_duplicate_time_entry"
    using all1 all2 det1 det2 by (auto simp: isError_def)
  show "\<exists>res1 w1 res2 w2.
        processWorkLogEntries rt es dt w = Some (res1, w1)
      \<and> processWorkLogEntries rt es dt w1 = Some (res2, w2)
      \<and> time_entries w2 = time_entries w1
      \<and> work_packages w2 = work_packages w1
      \<and> (\<forall>rq \<in> set (drop (length (requests w1)) (requests w2)).
            rq = GetTimeEntries \<or> (\<exists>p s k. rq = GetWorkPackages p s k))
      \<and> length (details res1) = length es \<and> length (details res2) = length es
      \<and> (\<forall>j < length es. d_status (details res1 ! j) \<noteq> Some status_error \<longrightarrow>
            d_status (details res2 ! j) = Some skipped_duplicate_time_entry)"
    using run1 run2 gets' fin det1 det2 len1 len2
    by (intro exI[of _ res1] exI[of _ w1] exI[of _ res2] exI[of _ "w1\<lparr>requests := requests w1 @ R\<rparr>"])
       (simp add: processWorkLogEntries_def)
next
  assume "outage w0 (length (requests w0)) = Some msg"
  then show "checkExistingTimeEntries rt n dt w0
          = ([], w0\<lparr>requests := requests w0 @ [GetTimeEntries],
                     console := console w0 @ [ErrorCheckingExistingTimeEntries (HttpError msg)]\<rparr>)"
    by (simp add: checkExistingTimeEntries_failed)
next
  fix fd h
  assume o: "outage w0 (length (requests w0)) = Some msg"
    and v: "parseAndFormatDate rt dt = Inr fd \<and> validateHours (hours e) = Inr h"
  show "requests (snd (addTimeEntry rt n e dt d rs w0))
                 = requests w0 @ [GetTimeEntries,
                                  PostTimeEntry fd h (''/api/v3/work_packages/'' @ showNat n)]"
    using v
    by (cases "outage w0 (Suc (length (requests w0)))")
       (simp_all add: addTimeEntry_def checkExistingTimeEntries_failed[OF o] createTimeEntry_def
          makeRequest_def storeTimeEntry_def outage_def Let_def)
qed

theorem second_run_skips_witness:
  "(\<exists>k. addTimeEntry exampleRuntime 12 exampleLinkedEntry ''2025-10-23''
            (createEntryDetail exampleLinkedEntry 0) \<lparr>successful = 0, failed = 0, details = []\<rparr>
            exampleLoggedWorld =
          (Inr ((createEntryDetail exampleLinkedEntry 0)
                   \<lparr>d_status := Some skipped_duplicate_time_entry, d_existing_time_entries := Some k\<rparr>,
                \<lparr>successful = 1, failed = 0, details = []\<rparr>),
           exampleLoggedWorld\<lparr>requests := [GetTimeEntries]\<rparr>) \<and> 0 < k)
   \<and> (\<exists>res1 w1 res2 w2.
        processWorkLogEntries exampleRuntime [exampleBadEntry, exampleLinkedEntry, exampleEntry]
          ''2025-10-23'' exampleWorld = Some (res1, w1)
      \<and> processWorkLogEntries exampleRuntime [exampleBadEntry, exampleLinkedEntry, exampleEntry]
          ''2025-10-23'' w1 = Some (res2, w2)
      \<and> time_entries w2 = time_entries w1
      \<and> map d_status (details res1)
           = [Some status_error, Some created_time_entry, Some created_time_entry]
      \<and> map d_status (details res2)
           = [Some status_error, Some skipped_duplicate_time_entry, Some skipped_duplicate_time_entry])
   \<and> requests (snd (addTimeEntry exampleRuntime 12 exampleLinkedEntry ''2025-10-23''
                      (createEntryDetail exampleLinkedEntry 0) \<lparr>successful = 0, failed = 0, details = []\<rparr>
                      (exampleLoggedWorld\<lparr>outages := [(0, ''503'')]\<rparr>)))
       = [GetTimeEntries, PostTimeEntry ''2025-10-23'' 2 ''/api/v3/work_packages/12'']"
proof -
  let ?es = "[exampleBadEntry, exampleLinkedEntry, exampleEntry]"
  let ?r0 = "\<lparr>successful = 0, failed = 0, details = []\<rparr>"
  have a1: "outage exampleLoggedWorld (length (requests exampleLoggedWorld)) = None
      \<and> (\<exists>te \<in> set (time_entries exampleLoggedWorld).
            spentOn te = formatDateForComparison exampleRuntime ''2025-10-23''
             \<and> entryWorkPackageId te = Some (showNat 12))"
    by code_simp
  have a2: "(\<forall>i \<ge> length (requests exampleWorld). outage exampleWorld i = None)
      \<and> CHR ''T'' \<notin> set ''2025-10-23''"
    by (simp add: exampleWorld_def outage_def)
  note inst = second_run_skips[where ?w0.0 = exampleLoggedWorld and rt = exampleRuntime
      and dt = "''2025-10-23''" and n = 12 and e = exampleLinkedEntry
      and d = "createEntryDetail exampleLinkedEntry 0" and rs = ?r0 and w = exampleWorld and es = ?es]
  from inst[THEN conjunct1] a1 have A: "\<exists>k. addTimeEntry exampleRuntime 12 exampleLinkedEntry ''2025-10-23''
            (createEntryDetail exampleLinkedEntry 0) ?r0 exampleLoggedWorld =
          (Inr ((createEntryDetail exampleLinkedEntry 0)
                   \<lparr>d_status := Some skipped_duplicate_time_entry, d_existing_time_entries := Some k\<rparr>,
                \<lparr>successful = 1, failed = 0, details = []\<rparr>),
           exampleLoggedWorld\<lparr>requests := [GetTimeEntries]\<rparr>) \<and> 0 < k"
    by (simp add: exampleLoggedWorld_def exampleWorld_def)
  from inst[THEN conjunct2, THEN conjunct1] a2 obtain res1 w1 res2 w2 where
    r1: "processWorkLogEntries exampleRuntime ?es ''2025-10-23'' exampleWorld = Some (res1, w1)"
    and r2: "processWorkLogEntries exampleRuntime ?es ''2025-10-23'' w1 = Some (res2, w2)"
    and te: "time_entries w2 = time_entries w1"
    by blast
  have ev: "(case processWorkLogEntries exampleRuntime ?es ''2025-10-23'' exampleWorld of
               None \<Rightarrow> None
             | Some (res1, w1) \<Rightarrow>
                 (case processWorkLogEntries exampleRuntime ?es ''2025-10-23'' w1 of
                    None \<Rightarrow> None
                  | Some (res2, w2) \<Rightarrow>
                      Some (map d_status (details res1), map d_status (details res2))))
            = Some ([Some status_error, Some created_time_entry, Some created_time_entry],
                    [Some status_error, Some skipped_duplicate_time_entry,
                     Some skipped_duplicate_time_entry])"
    by code_simp
  from ev r1 r2 have st: "map d_status (details res1)
           = [Some status_error, Some created_time_entry, Some created_time_entry]"
    "map d_status (details res2)
           = [Some status_error, Some skipped_duplicate_time_entry, Some skipped_duplicate_time_entry]"
    by simp_all
  from r1 r2 te st have B: "\<exists>res1 w1 res2 w2.
        processWorkLogEntries exampleRuntime ?es ''2025-10-23'' exampleWorld = Some (res1, w1)
      \<and> processWorkLogEntries exampleRuntime ?es ''2025-10-23'' w1 = Some (res2, w2)
      \<and> time_entries w2 = time_entries w1
      \<and> map d_status (details res1)
           = [Some status_error, Some created_time_entry, Some created_time_entry]
      \<and> map d_status (details res2)
           = [Some status_error, Some skipped_duplicate_time_entry, Some skipped_duplicate_time_entry]"
    by (intro exI[of _ res1] exI[of _ w1] exI[of _ res2] exI[of _ w2]) simp
  let ?wo = "exampleLoggedWorld\<lparr>outages := [(0, ''503'')]\<rparr>"
  have a3: "outage ?wo (length (requests ?wo)) = Some ''503''"
    by (simp add: exampleLoggedWorld_def exampleWorld_def outage_def)
  have a4: "parseAndFormatDate exampleRuntime ''2025-10-23'' = Inr ''2025-10-23''
              \<and> validateHours (hours exampleLinkedEntry) = Inr 2"
    by code_simp
  have a5: "''/api/v3/work_packages/'' @ showNat 12 = ''/api/v3/work_packages/12''"
    by code_simp
  note inst3 = second_run_skips[where ?w0.0 = ?wo and rt = exampleRuntime
      and dt = "''2025-10-23''" and n = 12 and e = exampleLinkedEntry and msg = "''503''"
      and d = "createEntryDetail exampleLinkedEntry 0" and rs = ?r0, THEN conjunct2, THEN conjunct2]
  from inst3 a3 a4 have "requests (snd (addTimeEntry exampleRuntime 12 exampleLinkedEntry ''2025-10-23''
                      (createEntryDetail exampleLinkedEntry 0) ?r0 ?wo))
       = requests ?wo @ [GetTimeEntries, PostTimeEntry ''2025-10-23'' 2 (''/api/v3/work_packages/'' @ showNat 12)]"
    by blast
  then have C: "requests (snd (addTimeEntry exampleRuntime 12 exampleLinkedEntry ''2025-10-23''
                      (createEntryDetail exampleLinkedEntry 0) ?r0 ?wo))
       = [GetTimeEntries, PostTimeEntry ''2025-10-23'' 2 ''/api/v3/work_packages/12'']"
    unfolding a5 by (simp add: exampleLoggedWorld_def exampleWorld_def)
  from A B C show ?thesis by (intro conjI)
qed


text \<open>
  The claim as stated fails in two places. In the API client, when the listing of the
  time entries fails, \<open>checkExistingTimeEntries\<close> catches the error and returns no
  entries, and a second time entry is created for a pair that has one. In the
  service, \<open>processAllEntries\<close> run a second time on the state the first run left
  creates the time entries again: two after the first run, four after the second.
\<close>

theorem time_entry_duplicated_counterexample:
  "filter (\<lambda>te. spentOn te = ''2025-10-23'' \<and> entryWorkPackageId te = Some (showNat 12))
      (time_entries (exampleLoggedWorld\<lparr>outages := [(0, ''503'')]\<rparr>)) \<noteq> []
   \<and> map_option (\<lambda>(res, w'). (map d_status (details res), length (time_entries w')))
       (processWorkLogEntries exampleRuntime [exampleLinkedEntry] ''2025-10-23''
          (exampleLoggedWorld\<lparr>outages := [(0, ''503'')]\<rparr>))
     = Some ([Some created_time_entry], 2)
   \<and> (case processAllEntries exampleService exampleRuntime exampleWorld of
         None \<Rightarrow> None
       | Some (pr1, w1) \<Rightarrow>
           (case processAllEntries exampleService exampleRuntime w1 of
              None \<Rightarrow> None
            | Some (pr2, w2) \<Rightarrow>
                Some (length (time_entries exampleWorld), length (time_entries w1),
                      length (time_entries w2), map (map_option r_type \<circ> t_result) (results pr2))))
     = Some (0, 2, 4, [None, Some TypeDuplicate, Some TypeFoundExisting])"
  by code_simp


subsection \<open>The service creates a time entry for every entry it processes\<close>

lemma createTimeEntry_appends:
  "createTimeEntry rt n dt h w = (Inr te, w') \<Longrightarrow>
     time_entries w' = time_entries w @ [te] \<and> work_packages w' = work_packages w"
  by (auto simp: createTimeEntry_def makeRequest_def storeTimeEntry_def Let_def
      split: sum.splits option.splits)

lemma checkExisting_keeps:
  assumes "checkExistingWorkPackageBySubject p s w = Some (found, w')"
  shows "time_entries w' = time_entries w \<and> work_packages w' = work_packages w"
proof -
  obtain res w1 where sp: "searchPages p (toLowerCase (trim s)) 1 w = Some (res, w1)"
    using searchPages_run[of 1 p "toLowerCase (trim s)" w] by auto
  from searchPages_frame[OF sp] have k: "time_entries w1 = time_entries w"
    "work_packages w1 = work_packages w" by auto
  show ?thesis
    using assms sp k by (cases res) (auto simp: checkExistingWorkPackageBySubject_def)
qed

lemma createWorkPackage_keeps:
  assumes "createWorkPackage p s w = Some (r, w')"
  shows "time_entries w' = time_entries w"
proof -
  obtain found w1 where c: "checkExistingWorkPackageBySubject p s w = Some (found, w1)"
    using checkExisting_returns by blast
  note k = checkExisting_keeps[OF c]
  show ?thesis
  proof (cases found)
    case (Some wp)
    then show ?thesis using assms c k by (simp add: createWorkPackage_def)
  next
    case None
    then have "makeRequest (PostWorkPackage p s) (storeWorkPackage p s) w1 = (r, w')"
      using assms c by (simp add: createWorkPackage_def)
    then have "time_entries w' = time_entries w1"
      by (auto simp: makeRequest_def storeWorkPackage_def Let_def split: option.splits)
    then show ?thesis using k by simp
  qed
qed


text \<open>
  Whenever \<open>processEntry\<close> of the service succeeds, it has appended exactly one time
  entry to those of the remote system, whatever time entries were there: no path of
  it consults the existing time entries.
\<close>

theorem processEntry_always_logs:
  assumes "processEntry svc rt e w = Some (Inr r, w')"
  shows "\<exists>te. time_entries w' = time_entries w @ [te]"
proof -
  have one: "\<And>n dt h u u' x. createTimeEntry rt n dt h u = (Inr x, u') \<Longrightarrow>
               \<exists>te. time_entries u' = time_entries u @ [te]"
    using createTimeEntry_appends by blast
  have direct: "\<And>n dt ty. (case createTimeEntry rt n dt (Some (duration e)) w of
                   (Inl err, u) \<Rightarrow> (Inl err, u)
                 | (Inr te, u) \<Rightarrow> (Inr ty, u)) = (Inr r, w') \<Longrightarrow>
               \<exists>te. time_entries w' = time_entries w @ [te]"
    by (auto split: prod.splits sum.splits dest: one)
  from assms obtain entryDate where d: "orElseStr (entry_date e) (date e) = Some entryDate"
    by (auto simp: processEntry_def Let_def split: option.splits)
  from assms d have a: "analysisData svc \<noteq> None"
    by (auto simp: processEntry_def Let_def enrichEntryMetadata_def split: option.splits)
  let ?id = "case truthy (work_package_id e) of Some n \<Rightarrow> Some n | None \<Rightarrow> existing_work_package_id e"
  consider (scrum) "is_scrum e \<and> present ?id"
    | (existing) "\<not> (is_scrum e \<and> present ?id)" "present (existing_work_package_id e)"
    | (linked) "\<not> (is_scrum e \<and> present ?id)" "\<not> present (existing_work_package_id e)"
        "present (work_package_id e)"
    | (new) "\<not> (is_scrum e \<and> present ?id)" "\<not> present (existing_work_package_id e)"
        "\<not> present (work_package_id e)"
    by blast
  then show ?thesis
  proof cases
    case scrum
    then show ?thesis using assms d a
      by (auto simp: processEntry_def Let_def enrichEntryMetadata_def processScrumTimeEntry_def
          intro!: direct)
  next
    case existing
    then show ?thesis using assms d a
      by (auto simp: processEntry_def Let_def enrichEntryMetadata_def processExistingWorkPackage_def
          intro!: direct)
  next
    case linked
    then show ?thesis using assms d a
      by (auto simp: processEntry_def Let_def enrichEntryMetadata_def processDuplicateWorkPackage_def
          intro!: direct)
  next
    case new
    then have pn: "processNewWorkPackage svc rt e entryDate w = Some (Inr r, w')"
      using assms d a by (auto simp: processEntry_def Let_def enrichEntryMetadata_def)
    then obtain p where p: "getProjectId svc (project e) = Inr p"
      by (auto simp: processNewWorkPackage_def split: sum.splits)
    obtain found w1 where c: "checkExistingWorkPackageBySubject p (subject e) w = Some (found, w1)"
      using checkExisting_returns by blast
    note k = checkExisting_keeps[OF c]
    show ?thesis
    proof (cases found)
      case (Some wp)
      then have "processFoundExistingWorkPackage rt e wp entryDate w1 = (Inr r, w')"
        using pn p c by (simp add: processNewWorkPackage_def)
      then have "\<exists>te. time_entries w' = time_entries w1 @ [te]"
        by (auto simp: processFoundExistingWorkPackage_def split: prod.splits sum.splits dest: one)
      then show ?thesis using k by simp
    next
      case None
      then have cn: "createNewWorkPackageWithTime rt e p entryDate w1 = Some (Inr r, w')"
        using pn p c by (simp add: processNewWorkPackage_def)
      then obtain wp w2 where cw: "createWorkPackage p (subject e) w1 = Some (Inr wp, w2)"
        by (auto simp: createNewWorkPackageWithTime_def split: option.splits prod.splits sum.splits)
      from cn cw have "\<exists>te. time_entries w' = time_entries w2 @ [te]"
        by (auto simp: createNewWorkPackageWithTime_def split: prod.splits sum.splits dest: one)
      then show ?thesis using createWorkPackage_keeps[OF cw] k by simp
    qed
  qed
qed

theorem processEntry_always_logs_witness:
  "\<exists>r w'. processEntry exampleService exampleRuntime exampleLinkedEntry exampleLoggedWorld = Some (Inr r, w')
      \<and> length (time_entries w') = 2"
proof -
  have ev: "map_option (\<lambda>(out, w'). isl out)
              (processEntry exampleService exampleRuntime exampleLinkedEntry exampleLoggedWorld) = Some False"
    by code_simp
  obtain out w' where
    run0: "processEntry exampleService exampleRuntime exampleLinkedEntry exampleLoggedWorld = Some (out, w')"
    using processEntry_returns by blast
  with ev have "\<not> isl out" by simp
  then obtain r where "out = Inr r" by (cases out) auto
  with run0 have
    run: "processEntry exampleService exampleRuntime exampleLinkedEntry exampleLoggedWorld = Some (Inr r, w')"
    by simp
  from processEntry_always_logs[OF run] obtain te where
    "time_entries w' = time_entries exampleLoggedWorld @ [te]" ..
  then have "length (time_entries w') = 2" by (simp add: exampleLoggedWorld_def)
  with run show ?thesis by blast
qed

section \<open>Properties of the time chain\<close>

subsection \<open>The loop over the indices and the recursion over the list\<close>

lemma list_find_append:
  "List.find P (xs @ ys) = (case List.find P xs of None \<Rightarrow> List.find P ys | Some x \<Rightarrow> Some x)"
  by (induction xs) auto

lemma timed_scrum [simp]: "is_scrum (timed rt e s) = is_scrum e"
  by (simp add: timed_def)

lemma chainFrom_length [simp]: "length (chainFrom rt prev first es) = length es"
  by (induction es arbitrary: prev first) (auto simp: Let_def)

lemma chainFrom_scrum [simp]: "map is_scrum (chainFrom rt prev first es) = map is_scrum es"
  by (induction es arbitrary: prev first) (auto simp: Let_def)

lemma chainFrom_append:
  "chainFrom rt prev first (xs @ ys) =
     chainFrom rt prev first xs
     @ chainFrom rt (lastNonScrum prev (chainFrom rt prev first xs))
         (first \<and> (\<forall>x \<in> set xs. is_scrum x)) ys"
proof (induction xs arbitrary: prev first)
  case Nil
  show ?case by (simp add: lastNonScrum_def)
next
  case (Cons x xs)
  show ?case
  proof (cases "is_scrum x")
    case True
    have "lastNonScrum prev (timed rt x (scrumStart x) # chainFrom rt prev first xs)
            = lastNonScrum prev (chainFrom rt prev first xs)"
      using True by (simp add: lastNonScrum_def list_find_append split: option.splits)
    then show ?thesis using True Cons.IH[of prev first] by simp
  next
    case False
    define x' where "x' = timed rt x
                  (if first then getFirstNonScrumStartTime rt x
                   else (case prev of
                           None \<Rightarrow> None
                         | Some p \<Rightarrow> addHoursToTime rt (calculated_end_time p) (orZero (break_hours x))))"
    have ns: "\<not> is_scrum x'" using False by (simp add: x'_def)
    have "lastNonScrum prev (x' # chainFrom rt (Some x') False xs)
            = lastNonScrum (Some x') (chainFrom rt (Some x') False xs)"
      using ns by (simp add: lastNonScrum_def list_find_append split: option.splits)
    then show ?thesis
      using False Cons.IH[of "Some x'" False] by (simp add: Let_def x'_def[symmetric])
  qed
qed

lemma findPrevious_find:
  "k \<le> length zs \<Longrightarrow>
     findPreviousNonScrumEntry (zs @ rest) k = List.find (\<lambda>z. \<not> is_scrum z) (rev (take k zs))"
proof (induction k)
  case 0
  show ?case by simp
next
  case (Suc k)
  then have k: "k < length zs" by simp
  have "rev (take (Suc k) zs) = zs ! k # rev (take k zs)"
    using k by (simp add: take_Suc_conv_app_nth)
  moreover have "(zs @ rest) ! k = zs ! k" using k by (simp add: nth_append)
  ultimately show ?case using Suc by simp
qed

lemma processScrumEntry_fst: "fst (processScrumEntry rt e iss) = timed rt e (scrumStart e)"
  by (simp add: processScrumEntry_def timed_def scrumStart_def orElseStr_def Let_def
      split: option.splits)

lemma setEntryTimes_fst: "fst (setEntryTimes rt e start L k iss) = timed rt e start"
  by (simp add: setEntryTimes_def timed_def Let_def)

lemma fold_invariant:
  "k \<le> length es \<Longrightarrow>
     \<exists>c iss'. foldl (processDateEntriesStep rt) (es, c0, True, iss) [0..<k]
       = (chainFrom rt None True (take k es) @ drop k es, c, (\<forall>x \<in> set (take k es). is_scrum x), iss')"
proof (induction k)
  case 0
  show ?case by simp
next
  case (Suc k)
  then have k: "k < length es" and kle: "k \<le> length es" by simp_all
  let ?ch = "chainFrom rt None True (take k es)"
  let ?f = "\<forall>x \<in> set (take k es). is_scrum x"
  from Suc.IH[OF kle] obtain c iss' where
    ih: "foldl (processDateEntriesStep rt) (es, c0, True, iss) [0..<k]
           = (?ch @ drop k es, c, ?f, iss')" by blast
  let ?L = "?ch @ drop k es"
  have lch: "length ?ch = k" using kle by simp
  have Lk: "?L ! k = es ! k" using lch k by (simp add: nth_append)
  have upd: "\<And>e'. ?L[k := e'] = ?ch @ e' # drop (Suc k) es"
    using lch k by (simp add: list_update_append Cons_nth_drop_Suc[symmetric])
  have tk: "take (Suc k) es = take k es @ [es ! k]"
    using k by (simp add: take_Suc_conv_app_nth)
  have fp: "findPreviousNonScrumEntry ?L k = lastNonScrum None ?ch"
    using findPrevious_find[of k ?ch "drop k es"] lch by (simp add: lastNonScrum_def split: option.splits)
  have f': "(\<forall>x \<in> set (take (Suc k) es). is_scrum x) = (?f \<and> is_scrum (es ! k))"
    unfolding tk by auto
  show ?case
  proof (cases "is_scrum (es ! k)")
    case True
    obtain e' i2 where ps: "processScrumEntry rt (es ! k) iss' = (e', i2)"
      by (cases "processScrumEntry rt (es ! k) iss'")
    then have e': "e' = timed rt (es ! k) (scrumStart (es ! k))"
      using processScrumEntry_fst[of rt "es ! k" iss'] by simp
    have step: "processDateEntriesStep rt (?L, c, ?f, iss') k = (?ch @ e' # drop (Suc k) es, c, ?f, i2)"
      using True ps by (simp add: processDateEntriesStep_def Lk upd Let_def)
    have ch: "chainFrom rt None True (take (Suc k) es) = ?ch @ [e']"
      unfolding tk chainFrom_append using True e' by simp
    show ?thesis
      using ih step ch f' True
      by (intro exI[of _ c] exI[of _ i2]) simp
  next
    case False
    let ?start = "calculateEntryStartTime rt (es ! k) ?L k ?f"
    obtain e' i2 where se: "setEntryTimes rt (es ! k) ?start ?L k iss' = (e', i2)"
      by (cases "setEntryTimes rt (es ! k) ?start ?L k iss'")
    then have e': "e' = timed rt (es ! k) ?start"
      using setEntryTimes_fst[of rt "es ! k" ?start ?L k iss'] by simp
    have step: "processDateEntriesStep rt (?L, c, ?f, iss') k
                  = (?ch @ e' # drop (Suc k) es, calculated_end_time e', False, i2)"
      using False se by (simp add: processDateEntriesStep_def Lk upd Let_def)
    have start: "?start = (if ?f then getFirstNonScrumStartTime rt (es ! k)
                   else (case lastNonScrum None ?ch of
                           None \<Rightarrow> None
                         | Some p \<Rightarrow> addHoursToTime rt (calculated_end_time p)
                                       (orZero (break_hours (es ! k)))))"
      by (simp add: calculateEntryStartTime_def getSubsequentStartTime_def fp Let_def)
    have ch: "chainFrom rt None True (take (Suc k) es) = ?ch @ [e']"
      unfolding tk chainFrom_append using False e' start by (simp add: Let_def)
    show ?thesis
      using ih step ch f' False
      by (intro exI[of _ "calculated_end_time e'"] exI[of _ i2]) simp
  qed
qed

lemma processDateEntries_chain:
  "fst (processDateEntries rt es iss) = chainFrom rt None True es"
proof -
  from fold_invariant[of "length es" es rt None iss] obtain c iss' where
    "foldl (processDateEntriesStep rt) (es, None, True, iss) [0..<length es]
       = (chainFrom rt None True es, c, (\<forall>x \<in> set es. is_scrum x), iss')"
    by auto
  then show ?thesis by (simp add: processDateEntries_def)
qed

lemma chainFrom_end:
  "i < length es \<Longrightarrow>
     calculated_end_time (chainFrom rt prev first es ! i)
       = addHoursToTime rt (calculated_start_time (chainFrom rt prev first es ! i)) (entryHours (es ! i))"
proof (induction es arbitrary: prev first i)
  case Nil
  then show ?case by simp
next
  case (Cons e es)
  show ?case
  proof (cases i)
    case 0
    then show ?thesis by (simp add: Let_def timed_def)
  next
    case (Suc j)
    then show ?thesis using Cons by (simp add: Let_def)
  qed
qed

lemma chainFrom_scrum_start:
  "i < length es \<Longrightarrow> is_scrum (es ! i) \<Longrightarrow>
     calculated_start_time (chainFrom rt prev first es ! i) = scrumStart (es ! i)"
proof (induction es arbitrary: prev first i)
  case Nil
  then show ?case by simp
next
  case (Cons e es)
  show ?case
  proof (cases i)
    case 0
    then show ?thesis using Cons.prems by (simp add: Let_def timed_def)
  next
    case (Suc j)
    then show ?thesis using Cons by (simp add: Let_def)
  qed
qed

lemma find_rev_nearest:
  "p < length zs \<Longrightarrow> P (zs ! p) \<Longrightarrow> (\<forall>j. p < j \<and> j < length zs \<longrightarrow> \<not> P (zs ! j)) \<Longrightarrow>
     List.find P (rev zs) = Some (zs ! p)"
proof (induction zs rule: rev_induct)
  case Nil
  then show ?case by simp
next
  case (snoc y ys)
  show ?case
  proof (cases "p = length ys")
    case True
    then show ?thesis using snoc.prems by simp
  next
    case False
    then have p: "p < length ys" using snoc.prems by simp
    have ny: "\<not> P y" using snoc.prems(3) p by (auto dest!: spec[of _ "length ys"])
    have "\<forall>j. p < j \<and> j < length ys \<longrightarrow> \<not> P (ys ! j)"
    proof (intro allI impI)
      fix j assume j: "p < j \<and> j < length ys"
      then have "\<not> P ((ys @ [y]) ! j)" using snoc.prems(3) by simp
      then show "\<not> P (ys ! j)" using j by (simp add: nth_append)
    qed
    with snoc.IH p snoc.prems(2) have "List.find P (rev ys) = Some (ys ! p)"
      by (simp add: nth_append)
    then show ?thesis using ny p by (simp add: nth_append)
  qed
qed

lemma nth_is_scrum_chain:
  "i < length es \<Longrightarrow> is_scrum (chainFrom rt prev first es ! i) = is_scrum (es ! i)"
  using chainFrom_scrum[of rt prev first es] by (metis chainFrom_length nth_map)

lemma chain_decompose:
  assumes "i < length es"
  shows "chainFrom rt None True es =
           chainFrom rt None True (take i es)
           @ chainFrom rt (lastNonScrum None (chainFrom rt None True (take i es)))
               (\<forall>x \<in> set (take i es). is_scrum x) (es ! i # drop (Suc i) es)"
proof -
  have "es = take i es @ es ! i # drop (Suc i) es"
    using assms by (simp add: id_take_nth_drop[symmetric])
  then have "chainFrom rt None True es = chainFrom rt None True (take i es @ es ! i # drop (Suc i) es)"
    by simp
  then show ?thesis unfolding chainFrom_append by simp
qed

lemma chain_anchor:
  assumes "i < length es" and "\<not> is_scrum (es ! i)" and "\<forall>j < i. is_scrum (es ! j)"
  shows "calculated_start_time (chainFrom rt None True es ! i) = getFirstNonScrumStartTime rt (es ! i)"
proof -
  have all: "\<forall>x \<in> set (take i es). is_scrum x"
    using assms(1,3) by (auto simp: in_set_conv_nth)
  have li: "length (chainFrom rt None True (take i es)) = i" using assms(1) by simp
  show ?thesis
    unfolding chain_decompose[OF assms(1)]
    using all assms(2) li by (simp add: nth_append Let_def timed_def)
qed

lemma chain_subsequent:
  assumes "i < length es" and "\<not> is_scrum (es ! i)" and "p < i" and "\<not> is_scrum (es ! p)"
    and "\<forall>j. p < j \<and> j < i \<longrightarrow> is_scrum (es ! j)"
  shows "calculated_start_time (chainFrom rt None True es ! i)
           = addHoursToTime rt (calculated_end_time (chainFrom rt None True es ! p))
               (orZero (break_hours (es ! i)))"
proof -
  let ?ch = "chainFrom rt None True (take i es)"
  have li: "length ?ch = i" using assms(1) by simp
  have notall: "\<not> (\<forall>x \<in> set (take i es). is_scrum x)"
    using assms(1,3,4) by (auto simp: in_set_conv_nth intro!: bexI[of _ "es ! p"] exI[of _ p])
  have pch: "\<not> is_scrum (?ch ! p)"
    using assms(1,3,4) nth_is_scrum_chain[of p "take i es" rt None True] by simp
  have between: "\<forall>j. p < j \<and> j < length ?ch \<longrightarrow> \<not> \<not> is_scrum (?ch ! j)"
  proof (intro allI impI)
    fix j assume j: "p < j \<and> j < length ?ch"
    then have "is_scrum (take i es ! j)" using assms(5) li by simp
    then show "\<not> \<not> is_scrum (?ch ! j)"
      using j nth_is_scrum_chain[of j "take i es" rt None True] by simp
  qed
  have "List.find (\<lambda>z. \<not> is_scrum z) (rev ?ch) = Some (?ch ! p)"
    using find_rev_nearest[of p ?ch "\<lambda>z. \<not> is_scrum z"] assms(3) li pch between by simp
  then have last: "lastNonScrum None ?ch = Some (?ch ! p)" by (simp add: lastNonScrum_def)
  have resp: "chainFrom rt None True es ! p = ?ch ! p"
    unfolding chain_decompose[OF assms(1)] using assms(3) li by (simp add: nth_append)
  show ?thesis
    unfolding resp
    unfolding chain_decompose[OF assms(1)]
    using notall assms(2) li last by (auto simp: nth_append Let_def timed_def)
qed

lemma chainFrom_filter:
  "filter (\<lambda>e. \<not> is_scrum e) (chainFrom rt prev first es)
     = chainFrom rt prev first (filter (\<lambda>e. \<not> is_scrum e) es)"
  by (induction es arbitrary: prev first) (auto simp: Let_def)

subsection \<open>Adding hours to a time of day\<close>

lemma of_char_digitChar: "d < 10 \<Longrightarrow> (of_char (digitChar d) :: nat) = 48 + d"
  by (simp add: digitChar_def)

lemma isDigit_digitChar: "d < 10 \<Longrightarrow> isDigit (digitChar d)"
  by (simp add: isDigit_def of_char_digitChar)

lemma showNat_digits: "\<forall>c \<in> set (showNat n). isDigit c"
proof (induction n rule: showNat.induct)
  case (1 n)
  show ?case
  proof (cases "n < 10")
    case True
    then show ?thesis by (subst showNat.simps) (simp add: isDigit_digitChar)
  next
    case False
    then have "n mod 10 < 10" by simp
    with False 1 show ?thesis
      by (subst showNat.simps) (simp add: isDigit_digitChar)
  qed
qed

lemma showNat_nonempty: "showNat n \<noteq> []"
  by (subst showNat.simps) simp

lemma isDigit_not:
  assumes "isDigit c"
  shows "c \<noteq> CHR '':''" "c \<noteq> CHR ''T''" "c \<noteq> CHR ''-''" "c \<noteq> CHR ''+''"
    "c \<noteq> CHR ''x''" "c \<noteq> CHR ''X''" "\<not> isWhiteSpace c"
  using assms by (auto simp: isDigit_def isWhiteSpace_def)

lemma digitValue_digit: "isDigit c \<Longrightarrow> digitValue 10 c = Some (of_char c - 48)"
  by (auto simp: digitValue_def isDigit_def Let_def)

lemma digitsValue_append:
  "\<forall>c \<in> set xs. isDigit c \<Longrightarrow>
     digitsValue 10 acc (xs @ ys) = digitsValue 10 (digitsValue 10 acc xs) ys"
  by (induction xs arbitrary: acc) (auto simp: digitValue_digit)

lemma digitsValue_showNat:
  "digitsValue 10 acc (showNat n) = acc * 10 ^ length (showNat n) + n"
proof (induction n arbitrary: acc rule: showNat.induct)
  case (1 n)
  show ?case
  proof (cases "n < 10")
    case True
    then have s: "showNat n = [digitChar n]" by (subst showNat.simps) simp
    show ?thesis
      using True by (simp add: s digitValue_digit isDigit_digitChar of_char_digitChar)
  next
    case False
    then have s: "showNat n = showNat (n div 10) @ [digitChar (n mod 10)]"
      by (subst showNat.simps) simp
    have m: "n mod 10 < 10" by simp
    have "digitsValue 10 acc (showNat n)
            = digitsValue 10 (digitsValue 10 acc (showNat (n div 10))) [digitChar (n mod 10)]"
      unfolding s using digitsValue_append[OF showNat_digits] by simp
    also have "\<dots> = (acc * 10 ^ length (showNat (n div 10)) + n div 10) * 10 + n mod 10"
      using 1[OF False] m
      by (simp add: digitValue_digit isDigit_digitChar of_char_digitChar)
    also have "\<dots> = acc * 10 ^ length (showNat n) + n"
      unfolding s by (simp add: algebra_simps)
    finally show ?thesis .
  qed
qed

lemma padded_digits: "\<forall>c \<in> set (padStart2 (showNat n)). isDigit c"
  using showNat_digits[of n] by (auto simp: padStart2_def isDigit_def)

lemma padded_nonempty: "padStart2 (showNat n) \<noteq> []"
  using showNat_nonempty by (simp add: padStart2_def)

lemma digitsValue_zeros:
  "digitsValue 10 0 (replicate k CHR ''0'' @ s) = digitsValue 10 0 s"
  by (induction k) (simp_all add: digitValue_def)

lemma digitsValue_padded: "digitsValue 10 0 (padStart2 (showNat n)) = n"
  by (simp add: padStart2_def digitsValue_zeros digitsValue_showNat)

lemma parseUnsigned_digits:
  assumes "\<forall>c \<in> set s. isDigit c" and "s \<noteq> []"
  shows "parseUnsigned s = Some (digitsValue 10 0 s)"
proof -
  obtain c cs where s: "s = c # cs" using assms(2) by (cases s) auto
  then have c: "isDigit c" using assms(1) by simp
  have pd: "parseDigits 10 s = Some (digitsValue 10 0 s)"
    using c by (simp add: parseDigits_def s digitValue_digit)
  show ?thesis
  proof (cases cs)
    case Nil
    then show ?thesis using pd s by (simp add: parseUnsigned_def)
  next
    case (Cons x rest)
    then have "isDigit x" using assms(1) s by simp
    then have "x \<noteq> CHR ''x''" "x \<noteq> CHR ''X''" using isDigit_not by blast+
    then show ?thesis using pd s Cons by (simp add: parseUnsigned_def)
  qed
qed

lemma parseInt_padded: "parseInt (padStart2 (showNat n)) = Some (int n)"
proof -
  let ?s = "padStart2 (showNat n)"
  obtain c cs where s: "?s = c # cs" using padded_nonempty[of n] by (cases ?s) auto
  have c: "isDigit c" using padded_digits[of n] s by simp
  have dw: "dropWhile isWhiteSpace ?s = ?s" using c s isDigit_not(7) by simp
  have "parseUnsigned ?s = Some n"
    using parseUnsigned_digits[OF padded_digits padded_nonempty] digitsValue_padded by simp
  then show ?thesis
    using c isDigit_not(3,4)[OF c] unfolding parseInt_def dw by (simp add: s)
qed

lemma split_append: "c \<notin> set a \<Longrightarrow> split c (a @ c # b) = a # split c b"
  by (induction a) auto

lemma split_clock: "split CHR '':'' (clock h m) = [padStart2 (showNat h), padStart2 (showNat m)]"
proof -
  have a: "CHR '':'' \<notin> set (padStart2 (showNat h))" and b: "CHR '':'' \<notin> set (padStart2 (showNat m))"
    using padded_digits isDigit_not(1) by blast+
  show ?thesis
    unfolding clock_def using split_append[OF a] split_single[OF b] by simp
qed

lemma clock_no_T: "CHR ''T'' \<notin> set (clock h m)"
  using padded_digits isDigit_not(2) by (auto simp: clock_def)

lemma clock_nonempty: "clock h m \<noteq> []"
  by (simp add: clock_def)

lemma pow2_pos: "0 < pow2 e"
  by (simp add: pow2_def)

lemma pow2_powi: "pow2 e = power_int 2 e"
proof (cases "0 \<le> e")
  case True
  then show ?thesis by (simp add: pow2_def power_int_def)
next
  case False
  have "inverse (2::rat) ^ nat (- e) = 1 / 2 ^ nat (- e)"
    by (simp only: inverse_eq_divide power_one_over)
  then show ?thesis using False by (simp add: pow2_def power_int_def)
qed

lemma pow2_add: "pow2 (a + b) = pow2 a * pow2 b"
  by (simp add: pow2_powi power_int_add)

lemma pow2_Suc: "pow2 (e + 1) = 2 * pow2 e"
proof -
  have "pow2 1 = 2" by (simp add: pow2_def)
  with pow2_add[of e 1] show ?thesis by simp
qed

lemma pow2_mono: "a \<le> b \<Longrightarrow> pow2 a \<le> pow2 b"
  by (simp add: pow2_powi power_int_increasing)

lemma bitLength_bounds:
  "0 < n \<Longrightarrow> 1 \<le> bitLength n \<and> pow2 (bitLength n - 1) \<le> of_int n \<and> of_int n < pow2 (bitLength n)"
proof (induction n rule: bitLength.induct)
  case (1 n)
  have bl: "bitLength n = 1 + bitLength (n div 2)" using "1.prems" by (subst bitLength.simps) simp
  show ?case
  proof (cases "n div 2 = 0")
    case True
    then have n1: "n = 1" using "1.prems" by presburger
    have "bitLength 0 = 0" by (subst bitLength.simps) simp
    then have "bitLength n = 1" using bl True by simp
    then show ?thesis using n1 by (simp add: pow2_def)
  next
    case False
    then have m: "0 < n div 2" using "1.prems" by presburger
    from "1.IH"[OF _ m] "1.prems" have ih: "1 \<le> bitLength (n div 2)"
      "pow2 (bitLength (n div 2) - 1) \<le> of_int (n div 2)"
      "of_int (n div 2) < pow2 (bitLength (n div 2))"
      by simp_all
    let ?b = "bitLength (n div 2)"
    have n2: "2 * (n div 2) \<le> n" "n \<le> 2 * (n div 2) + 1" by presburger+
    have lo: "pow2 ?b \<le> of_int n"
    proof -
      have "pow2 ?b = 2 * pow2 (?b - 1)" using pow2_Suc[of "?b - 1"] by simp
      also have "\<dots> \<le> 2 * of_int (n div 2)" using ih(2) by simp
      also have "\<dots> = of_int (2 * (n div 2))" by simp
      also have "\<dots> \<le> of_int n" using n2(1) by (simp only: of_int_le_iff)
      finally show ?thesis .
    qed
    have hi: "of_int n < pow2 (?b + 1)"
    proof -
      obtain P :: int where P: "pow2 ?b = of_int P"
        using ih(1) by (auto simp: pow2_def intro: that[of "2 ^ nat ?b"])
      from ih(3) P have "n div 2 < P" by simp
      then have "n div 2 + 1 \<le> P" by simp
      then have "n < 2 * P" using n2(2) by simp
      then have "(of_int n :: rat) < of_int (2 * P)" by (simp only: of_int_less_iff)
      also have "\<dots> = pow2 (?b + 1)" using P pow2_Suc[of ?b] by simp
      finally show ?thesis .
    qed
    have "bitLength n = ?b + 1" using bl by simp
    then show ?thesis using ih(1) lo hi by simp
  qed
qed

lemma exponentOf_bounds:
  assumes "0 < a"
  shows "pow2 (exponentOf a) \<le> a \<and> a < pow2 (exponentOf a + 1)"
proof -
  obtain p q where pq: "quotient_of a = (p, q)" by (cases "quotient_of a")
  have q: "0 < q" using quotient_of_denom_pos[OF pq] .
  have a: "a = of_int p / of_int q" using quotient_of_div[OF pq] .
  have p: "0 < p" using assms a q by (simp add: zero_less_divide_iff)
  let ?k = "bitLength p - bitLength q"
  note bp = bitLength_bounds[OF p] and bq = bitLength_bounds[OF q]
  have qpos: "(0::rat) < of_int q" using q by simp
  have up: "a < pow2 (?k + 1)"
  proof -
    have "of_int p < pow2 (bitLength p)" using bp by simp
    also have "pow2 (bitLength p) = pow2 (?k + 1) * pow2 (bitLength q - 1)"
      using pow2_add[of "?k + 1" "bitLength q - 1"] by simp
    also have "\<dots> \<le> pow2 (?k + 1) * of_int q"
      using bq pow2_pos[of "?k + 1"] by simp
    finally have "of_int p < pow2 (?k + 1) * of_int q" .
    then show ?thesis unfolding a using qpos by (simp add: pos_divide_less_eq)
  qed
  have lo: "pow2 (?k - 1) \<le> a"
  proof -
    have "pow2 (?k - 1) * of_int q \<le> pow2 (?k - 1) * pow2 (bitLength q)"
      using bq pow2_pos[of "?k - 1"] by simp
    also have "\<dots> = pow2 (bitLength p - 1)"
      using pow2_add[of "?k - 1" "bitLength q"] by simp
    also have "\<dots> \<le> of_int p" using bp by simp
    finally show ?thesis unfolding a using qpos by (simp add: pos_le_divide_eq)
  qed
  show ?thesis
  proof (cases "pow2 ?k \<le> a")
    case True
    then show ?thesis using up by (simp add: exponentOf_def pq Let_def)
  next
    case False
    then show ?thesis using lo by (simp add: exponentOf_def pq Let_def)
  qed
qed

lemma roundHalfEven_near: "\<bar>of_int (roundHalfEven y) - y\<bar> \<le> 1 / 2"
proof -
  have "of_int \<lfloor>y\<rfloor> \<le> y" "y < of_int \<lfloor>y\<rfloor> + 1"
    using floor_correct[of y] by simp_all
  then show ?thesis by (auto simp: roundHalfEven_def Let_def abs_le_iff)
qed

lemma scaled_near:
  fixes m u a :: rat
  assumes "0 < u" and "\<bar>m - a / u\<bar> \<le> 1 / 2"
  shows "\<bar>m * u - a\<bar> \<le> u / 2"
proof -
  have "m * u - a = (m - a / u) * u" using assms(1) by (simp add: left_diff_distrib)
  then have "\<bar>m * u - a\<bar> = \<bar>m - a / u\<bar> * u" using assms(1) by (simp add: abs_mult)
  also have "\<dots> \<le> 1 / 2 * u" using assms by (intro mult_right_mono) simp_all
  finally show ?thesis by simp
qed

lemma sgn_scaled:
  fixes x y :: rat
  assumes "x \<noteq> 0"
  shows "\<bar>sgn x * y - x\<bar> = \<bar>y - \<bar>x\<bar>\<bar>"
proof -
  have "sgn x * \<bar>x\<bar> = x" by (rule sgn_mult_abs)
  then have "sgn x * y - x = sgn x * y - sgn x * \<bar>x\<bar>" by simp
  also have "\<dots> = sgn x * (y - \<bar>x\<bar>)" by (simp only: right_diff_distrib)
  finally have "\<bar>sgn x * y - x\<bar> = \<bar>sgn x\<bar> * \<bar>y - \<bar>x\<bar>\<bar>" by (simp only: abs_mult)
  moreover have "\<bar>sgn x\<bar> = 1" using assms by (simp add: abs_sgn_eq)
  ultimately show ?thesis by simp
qed

lemma roundDouble_near:
  assumes "x \<noteq> 0"
  shows "\<bar>roundDouble x - x\<bar> \<le> pow2 (max (exponentOf \<bar>x\<bar>) (- 1022) - 52) / 2"
proof -
  define u where "u = pow2 (max (exponentOf \<bar>x\<bar>) (- 1022) - 52)"
  define m :: rat where "m = of_int (roundHalfEven (\<bar>x\<bar> / u))"
  have u: "0 < u" unfolding u_def by (rule pow2_pos)
  have "\<bar>m - \<bar>x\<bar> / u\<bar> \<le> 1 / 2" unfolding m_def by (rule roundHalfEven_near)
  from scaled_near[OF u this] have near: "\<bar>m * u - \<bar>x\<bar>\<bar> \<le> u / 2" .
  have rd: "roundDouble x = sgn x * (m * u)"
    unfolding roundDouble_def Let_def m_def u_def using assms by (simp only: if_False)
  have "\<bar>roundDouble x - x\<bar> = \<bar>m * u - \<bar>x\<bar>\<bar>"
    unfolding rd by (rule sgn_scaled[OF assms])
  with near show ?thesis unfolding u_def by simp
qed

lemma roundDouble_relative:
  assumes "pow2 (- 1022) \<le> \<bar>x\<bar>"
  shows "\<bar>roundDouble x - x\<bar> \<le> \<bar>x\<bar> / 2 ^ 53"
proof -
  have x0: "x \<noteq> 0" using assms pow2_pos[of "- 1022"] by auto
  then have a: "0 < \<bar>x\<bar>" by simp
  let ?e = "exponentOf \<bar>x\<bar>"
  note eb = exponentOf_bounds[OF a]
  have "- 1022 \<le> ?e"
  proof (rule ccontr)
    assume "\<not> - 1022 \<le> ?e"
    then have "?e + 1 \<le> - 1022" by simp
    then have "pow2 (?e + 1) \<le> pow2 (- 1022)" by (rule pow2_mono)
    then show False using eb assms by simp
  qed
  then have m: "max ?e (- 1022) = ?e" by simp
  have "pow2 (?e - 52) * 2 ^ 52 = pow2 ?e"
    using pow2_add[of "?e - 52" 52] by (simp add: pow2_def)
  then have u: "pow2 (?e - 52) = pow2 ?e / 2 ^ 52" by (simp add: field_simps)
  have "\<bar>roundDouble x - x\<bar> \<le> pow2 (?e - 52) / 2"
    using roundDouble_near[OF x0] unfolding m .
  also have "\<dots> = pow2 ?e / 2 ^ 53" unfolding u by simp
  also have "\<dots> \<le> \<bar>x\<bar> / 2 ^ 53" using eb by (simp add: divide_right_mono)
  finally show ?thesis .
qed

lemma roundHalfEven_nonneg: "0 \<le> y \<Longrightarrow> 0 \<le> roundHalfEven y"
  by (auto simp: roundHalfEven_def Let_def)

lemma roundDouble_nonneg: "0 \<le> x \<Longrightarrow> 0 \<le> roundDouble x"
proof (cases "x = 0")
  case True
  then show ?thesis by (simp add: roundDouble_def)
next
  case False
  assume "0 \<le> x"
  with False have x: "0 < x" by simp
  let ?u = "pow2 (max (exponentOf \<bar>x\<bar>) (- 1022) - 52)"
  have "0 \<le> \<bar>x\<bar> / ?u" using pow2_pos[of "max (exponentOf \<bar>x\<bar>) (- 1022) - 52"] by simp
  then have "0 \<le> roundHalfEven (\<bar>x\<bar> / ?u)" by (rule roundHalfEven_nonneg)
  then have "0 \<le> of_int (roundHalfEven (\<bar>x\<bar> / ?u)) * ?u"
    using pow2_pos[of "max (exponentOf \<bar>x\<bar>) (- 1022) - 52"] by simp
  then show ?thesis using x False by (simp add: roundDouble_def Let_def)
qed

lemma mathRound_nonneg: "0 < h \<Longrightarrow> 0 \<le> mathRound (fmul h 60)"
proof -
  assume "0 < h"
  then have "0 \<le> fmul h 60" unfolding fmul_def by (intro roundDouble_nonneg) simp
  then show ?thesis by (simp add: mathRound_def)
qed

lemma showInt_int: "showInt (int k) = showNat k"
  by (simp add: showInt_def)

lemma addHoursToTime_clock:
  assumes "0 < h"
  shows "addHoursToTime rt (Some (clock H M)) h =
           Some (clock ((H * 60 + M + nat (mathRound (fmul h 60))) div 60 mod 24)
                       ((H * 60 + M + nat (mathRound (fmul h 60))) mod 60))"
proof -
  let ?r = "nat (mathRound (fmul h 60))"
  let ?t = "H * 60 + M + ?r"
  let ?ps = "split CHR '':'' (clock H M)"
  have r: "mathRound (fmul h 60) = int ?r" using mathRound_nonneg[OF assms] by simp
  have ps: "?ps = [padStart2 (showNat H), padStart2 (showNat M)]" by (rule split_clock)
  have hd: "parseInt (hd ?ps) = Some (int H)" by (simp add: ps parseInt_padded)
  have len: "\<not> length ?ps < 2" by (simp add: ps)
  have snd: "?ps ! 1 = padStart2 (showNat M)" by (simp add: ps)
  have tot: "int H * 60 + int M + mathRound (fmul h 60) = int ?t" using r by simp
  have d: "int ?t div 60 = int (?t div 60)" by (simp add: zdiv_int)
  have m: "jsRem (int ?t) 60 = int (?t mod 60)" by (simp add: jsRem_def zmod_int)
  have f: "jsRem (int (?t div 60)) 24 = int (?t div 60 mod 24)" by (simp add: jsRem_def zmod_int)
  have h0: "h \<noteq> 0" using assms by simp
  have "addHoursToTime rt (Some (clock H M)) h =
          Some (padStart2 (showInt (jsRem ((int H * 60 + int M + mathRound (fmul h 60)) div 60) 24))
                @ '':'' @
                padStart2 (showInt (jsRem (int H * 60 + int M + mathRound (fmul h 60)) 60)))"
    unfolding addHoursToTime_def Let_def
    using h0 clock_no_T[of H M] clock_nonempty[of H M] padded_nonempty[of M] len
    by (simp only: option.case hd snd parseInt_padded if_False if_True simp_thms)
  also have "\<dots> = Some (clock (?t div 60 mod 24) (?t mod 60))"
    unfolding tot d m f showInt_int clock_def by (rule refl)
  finally show ?thesis .
qed

subsection \<open>Start and end of every task\<close>

lemma mathRound_half_up:
  "of_int (mathRound x) - 1 / 2 \<le> x \<and> x < of_int (mathRound x) + 1 / 2"
proof -
  have "of_int \<lfloor>x + 1 / 2\<rfloor> \<le> x + 1 / 2 \<and> x + 1 / 2 < of_int \<lfloor>x + 1 / 2\<rfloor> + 1"
    using floor_correct[of "x + 1 / 2"] by simp
  then show ?thesis unfolding mathRound_def by linarith
qed

lemma fmul_60_near:
  assumes "1 / 2 ^ 1000 \<le> h"
  shows "\<bar>fmul h 60 - h * 60\<bar> \<le> h * 60 / 2 ^ 53"
proof -
  have p: "(0::rat) < 1 / 2 ^ 1000" by simp
  with assms have h: "0 < h" by simp
  have "pow2 (- 1022) = 1 / 2 ^ 1022" by (simp add: pow2_def)
  also have "\<dots> \<le> 1 / 2 ^ 1000"
    by (intro divide_left_mono power_increasing) simp_all
  also have "\<dots> \<le> h" by (rule assms)
  also have "\<dots> \<le> h * 60" using h by simp
  finally have "pow2 (- 1022) \<le> \<bar>h * 60\<bar>" using h by simp
  from roundDouble_relative[OF this] show ?thesis using h by (simp add: fmul_def)
qed




section \<open>Scrum entries in the time chain\<close>

lemma timesOf_chain: "timesOf rt es = chainFrom rt None True es"
  by (simp add: timesOf_def processDateEntries_chain)

lemma findPrevious_not_scrum:
  "findPreviousNonScrumEntry L k = Some p \<Longrightarrow> \<not> is_scrum p"
  by (induction k) (auto split: if_splits)

lemma scrum_step:
  "is_scrum (L ! k) \<Longrightarrow>
     \<exists>e' iss'. processDateEntriesStep rt (L, c, f, iss) k = (L[k := e'], c, f, iss')"
  by (cases "processScrumEntry rt (L ! k) iss") (auto simp: processDateEntriesStep_def)

lemma parse_scrum_start:
  "parseJsonTaskEntry z m d c dt = Some e \<Longrightarrow> p_is_scrum e \<Longrightarrow> p_start_time e = setHours z c 10"
  by (auto simp: parseJsonTaskEntry_def calculateStartTime_def Let_def
      split: option.splits if_splits)

lemma parser_scrum_cursor:
  "i < length (processDateEntries_parser_from z m ds c dt) \<Longrightarrow>
   p_is_scrum (processDateEntries_parser_from z m ds c dt ! i) \<Longrightarrow>
     p_start_time (processDateEntries_parser_from z m ds c dt ! i)
       = setHours z (if i = 0 then c
                     else p_end_time (processDateEntries_parser_from z m ds c dt ! (i - 1))) 10"
proof (induction ds arbitrary: c i)
  case Nil
  then show ?case by simp
next
  case (Cons d ds)
  show ?case
  proof (cases "validateEntryData m d \<noteq> []")
    case True
    then show ?thesis using Cons by simp
  next
    case False
    show ?thesis
    proof (cases "parseJsonTaskEntry z m d c dt")
      case None
      then show ?thesis using False Cons by simp
    next
      case (Some x)
      let ?rest = "processDateEntries_parser_from z m ds (p_end_time x) dt"
      have ps: "processDateEntries_parser_from z m (d # ds) c dt = x # ?rest"
        using False Some by simp
      show ?thesis
      proof (cases i)
        case 0
        then show ?thesis using ps Cons.prems(2) parse_scrum_start[OF Some] by simp
      next
        case (Suc j)
        then have j: "j < length ?rest" and sj: "p_is_scrum (?rest ! j)"
          using Cons.prems ps by simp_all
        from Cons.IH[OF j sj] have
          "p_start_time (?rest ! j)
             = setHours z (if j = 0 then p_end_time x else p_end_time (?rest ! (j - 1))) 10" .
        moreover have "(x # ?rest) ! (Suc j - 1) = (if j = 0 then x else ?rest ! (j - 1))"
          by (cases j) simp_all
        ultimately show ?thesis using ps Suc by simp
      qed
    qed
  qed
qed

text \<open>
  Scrum entries in the two time chains. In the work-log service, at every position of the
  entries of a date, a scrum entry that has no calculated start yet receives 10:00, and one
  that has a calculated start keeps it; the step of the loop on a scrum entry changes
  neither the cursor \<open>currentTime\<close> nor \<open>isFirstNonScrum\<close>; \<open>findPreviousNonScrumEntry\<close>
  never returns a scrum entry; and the entries that are not scrum entries get the times
  they get when the scrum entries are taken out of the list. In the parser, a scrum entry
  starts at the hour 10 of the local day of the cursor, and the cursor is 9:00 of today
  for the first entry returned and the end of the entry returned before for every other.
\<close>

theorem scrum_fixed_slot:
  "(\<forall>i < length es. is_scrum (es ! i) \<longrightarrow>
      calculated_start_time (timesOf rt es ! i)
        = (if calculated_start_time (es ! i) = None \<or> calculated_start_time (es ! i) = Some []
           then Some ''10:00'' else calculated_start_time (es ! i)))
   \<and> (\<forall>L k c f iss. is_scrum (L ! k) \<longrightarrow>
         (\<exists>e' iss'. processDateEntriesStep rt (L, c, f, iss) k = (L[k := e'], c, f, iss')))
   \<and> (\<forall>L k p. findPreviousNonScrumEntry L k = Some p \<longrightarrow> \<not> is_scrum p)
   \<and> filter (\<lambda>e. \<not> is_scrum e) (timesOf rt es) = timesOf rt (filter (\<lambda>e. \<not> is_scrum e) es)
   \<and> (\<forall>i < length (processDateEntries_parser z m ds dt).
         p_is_scrum (processDateEntries_parser z m ds dt ! i) \<longrightarrow>
         p_start_time (processDateEntries_parser z m ds dt ! i)
           = setHours z (if i = 0 then setHours z (now z) 9
                         else p_end_time (processDateEntries_parser z m ds dt ! (i - 1))) 10)"
proof -
  have c1: "\<forall>i < length es. is_scrum (es ! i) \<longrightarrow>
      calculated_start_time (timesOf rt es ! i)
        = (if calculated_start_time (es ! i) = None \<or> calculated_start_time (es ! i) = Some []
           then Some ''10:00'' else calculated_start_time (es ! i))"
    unfolding timesOf_chain
    by (auto simp: chainFrom_scrum_start scrumStart_def split: option.splits)
  have c2: "\<forall>L k c f iss. is_scrum (L ! k) \<longrightarrow>
         (\<exists>e' iss'. processDateEntriesStep rt (L, c, f, iss) k = (L[k := e'], c, f, iss'))"
    using scrum_step by blast
  have c3: "\<forall>L k p. findPreviousNonScrumEntry L k = Some p \<longrightarrow> \<not> is_scrum p"
    using findPrevious_not_scrum by blast
  have c4: "filter (\<lambda>e. \<not> is_scrum e) (timesOf rt es) = timesOf rt (filter (\<lambda>e. \<not> is_scrum e) es)"
    unfolding timesOf_chain by (rule chainFrom_filter)
  have c5: "\<forall>i < length (processDateEntries_parser z m ds dt).
         p_is_scrum (processDateEntries_parser z m ds dt ! i) \<longrightarrow>
         p_start_time (processDateEntries_parser z m ds dt ! i)
           = setHours z (if i = 0 then setHours z (now z) 9
                         else p_end_time (processDateEntries_parser z m ds dt ! (i - 1))) 10"
    unfolding processDateEntries_parser_def using parser_scrum_cursor by blast
  from c1 c2 c3 c4 c5 show ?thesis by (intro conjI)
qed

theorem scrum_fixed_slot_witness:
  "calculated_start_time
     (timesOf exampleRuntime [exampleScrumEntry, exampleFirstTask, exampleSecondTask] ! 0)
     = Some ''10:00''
   \<and> filter (\<lambda>e. \<not> is_scrum e)
        (timesOf exampleRuntime [exampleScrumEntry, exampleFirstTask, exampleSecondTask])
      = timesOf exampleRuntime [exampleFirstTask, exampleSecondTask]
   \<and> p_start_time
        (processDateEntries_parser exampleZone (Some [(''ALPHA'', 7)])
           [exampleScrumData, exampleTaskData] ''2025-10-23'' ! 0)
      = setHours exampleZone (setHours exampleZone (now exampleZone) 9) 10"
proof -
  let ?es = "[exampleScrumEntry, exampleFirstTask, exampleSecondTask]"
  let ?ps = "processDateEntries_parser exampleZone (Some [(''ALPHA'', 7)])
               [exampleScrumData, exampleTaskData] ''2025-10-23''"
  note inst = scrum_fixed_slot[of ?es exampleRuntime exampleZone "Some [(''ALPHA'', 7)]"
      "[exampleScrumData, exampleTaskData]" "''2025-10-23''"]
  have sc: "is_scrum (?es ! 0)" "calculated_start_time (?es ! 0) = None"
    by (simp_all add: exampleScrumEntry_def exampleEntry_def)
  have ns: "filter (\<lambda>e. \<not> is_scrum e) ?es = [exampleFirstTask, exampleSecondTask]"
    by (simp add: exampleScrumEntry_def exampleFirstTask_def exampleSecondTask_def exampleEntry_def)
  have a: "calculated_start_time (timesOf exampleRuntime ?es ! 0) = Some ''10:00''"
    using inst sc by simp
  have b: "filter (\<lambda>e. \<not> is_scrum e) (timesOf exampleRuntime ?es)
             = timesOf exampleRuntime [exampleFirstTask, exampleSecondTask]"
    using inst ns by simp
  have len: "0 < length ?ps" and first_scrum: "p_is_scrum (?ps ! 0)"
    by code_simp+
  from inst have "\<forall>i < length ?ps. p_is_scrum (?ps ! i) \<longrightarrow>
         p_start_time (?ps ! i)
           = setHours exampleZone (if i = 0 then setHours exampleZone (now exampleZone) 9
                                   else p_end_time (?ps ! (i - 1))) 10"
    by blast
  with len first_scrum have c: "p_start_time (?ps ! 0)
      = setHours exampleZone (setHours exampleZone (now exampleZone) 9) 10"
    by (auto dest!: spec[of _ 0])
  from a b c show ?thesis by (intro conjI)
qed

text \<open>
  Claim C4. A scrum entry is to receive 10:00 and never to move the cursor of the chain nor
  to be the previous task of a later one; the work-log service does so, and the README says
  that scrum entries do not affect the chain. The loop of the parser breaks it: it sets the
  cursor to the end of every entry it returns, scrum entries too. After a scrum entry of
  one hour, from 10:00 to 11:00, the task of two hours starts at 11:00; alone it starts at
  9:00.
\<close>

theorem scrum_moves_parser_cursor:
  "map (\<lambda>e. (p_is_scrum e, p_start_time e, p_end_time e))
       (processDateEntries_parser exampleZone (Some [(''ALPHA'', 7)])
          [exampleScrumData, exampleTaskData] ''2025-10-23'')
     = [(True, 1761213600000, 1761217200000), (False, 1761217200000, 1761224400000)]
   \<and> map (\<lambda>e. (p_is_scrum e, p_start_time e, p_end_time e))
       (processDateEntries_parser exampleZone (Some [(''ALPHA'', 7)])
          [exampleTaskData] ''2025-10-23'')
     = [(False, 1761210000000, 1761217200000)]"
  by (intro conjI; code_simp)

section \<open>Properties of date parsing\<close>

lemma dayFromYear_prev: "dayFromYear (y - 1) = dayFromYear y - daysInYear (y - 1)"
  using dayFromYear_next[of "y - 1"] by simp

lemma dayFromYear_mono: "y \<le> y' \<Longrightarrow> dayFromYear y \<le> dayFromYear y'"
proof (induction y' rule: int_ge_induct)
  case base
  show ?case by simp
next
  case (step i)
  then show ?case using dayFromYear_next[of i] daysInYear_bounds[of i] by simp
qed

lemma dayFromYear_1970: "dayFromYear 1970 = 0"
  by (simp add: dayFromYear_def)

lemma dayFromYear_upper: "0 \<le> k \<Longrightarrow> dayFromYear (1970 + k) \<le> 366 * k"
proof (induction k rule: int_ge_induct)
  case base
  show ?case by (simp add: dayFromYear_1970)
next
  case (step i)
  have "dayFromYear (1970 + (i + 1)) = dayFromYear (1970 + i) + daysInYear (1970 + i)"
    using dayFromYear_next[of "1970 + i"] by (simp add: add.assoc)
  then show ?case using step daysInYear_bounds[of "1970 + i"] by simp
qed

lemma dayFromYear_lower: "k \<le> 0 \<Longrightarrow> dayFromYear (1970 + k) \<le> 365 * k"
proof (induction k rule: int_le_induct)
  case base
  show ?case by (simp add: dayFromYear_1970)
next
  case (step i)
  have "dayFromYear (1970 + (i - 1)) = dayFromYear (1970 + i) - daysInYear (1970 + i - 1)"
    using dayFromYear_prev[of "1970 + i"] by (simp add: algebra_simps)
  then show ?case using step daysInYear_bounds[of "1970 + i - 1"] by simp
qed

lemma yearFrom_spec:
  "dayFromYear y \<le> day \<Longrightarrow>
     dayFromYear (yearFrom y day) \<le> day \<and> day < dayFromYear (yearFrom y day + 1)"
proof (induction y day rule: yearFrom.induct)
  case (1 y day)
  show ?case
  proof (cases "dayFromYear (y + 1) \<le> day")
    case True
    then show ?thesis using 1 by (subst (1 2) yearFrom.simps) simp
  next
    case False
    then show ?thesis using 1 by (subst (1 2) yearFrom.simps) simp
  qed
qed

lemma yearFromDay_spec:
  "dayFromYear (yearFromDay day) \<le> day \<and> day < dayFromYear (yearFromDay day + 1)"
proof -
  let ?y0 = "if 0 \<le> day then 1970 + day div 366 else 1970 + day div 365"
  have "dayFromYear ?y0 \<le> day"
  proof (cases "0 \<le> day")
    case True
    then have "0 \<le> day div 366" by simp
    from dayFromYear_upper[OF this] have "dayFromYear (1970 + day div 366) \<le> 366 * (day div 366)" .
    also have "\<dots> \<le> day"
      using div_mult_mod_eq[of day 366] pos_mod_sign[of 366 day] by linarith
    finally show ?thesis using True by simp
  next
    case False
    then have "day div 365 < 0" by (simp add: neg_imp_zdiv_neg_iff)
    then have "day div 365 \<le> 0" by simp
    from dayFromYear_lower[OF this] have "dayFromYear (1970 + day div 365) \<le> 365 * (day div 365)" .
    also have "\<dots> \<le> day"
      using div_mult_mod_eq[of day 365] pos_mod_sign[of 365 day] by linarith
    finally show ?thesis using False by simp
  qed
  from yearFrom_spec[OF this] show ?thesis by (simp add: yearFromDay_def)
qed

lemma yearFromDay_unique:
  assumes "dayFromYear y \<le> day" and "day < dayFromYear (y + 1)"
  shows "yearFromDay day = y"
proof (rule ccontr)
  let ?Y = "yearFromDay day"
  assume ne: "?Y \<noteq> y"
  have sp: "dayFromYear ?Y \<le> day" "day < dayFromYear (?Y + 1)"
    using yearFromDay_spec[of day] by simp_all
  show False
  proof (cases "?Y < y")
    case True
    then have "dayFromYear (?Y + 1) \<le> dayFromYear y" by (intro dayFromYear_mono) simp
    then show False using sp(2) assms(1) by simp
  next
    case False
    then have "y + 1 \<le> ?Y" using ne by simp
    then have "dayFromYear (y + 1) \<le> dayFromYear ?Y" by (rule dayFromYear_mono)
    then show False using sp(1) assms(2) by simp
  qed
qed

lemma yearFromDay_within:
  "0 \<le> k \<Longrightarrow> k < daysInYear y \<Longrightarrow> yearFromDay (dayFromYear y + k) = y"
  by (rule yearFromDay_unique) (simp_all add: dayFromYear_next)

lemma monthStart_within:
  assumes "0 \<le> mn" "mn \<le> 11" "1 \<le> d" "d \<le> 31"
  shows "0 \<le> monthStart mn (if daysInYear y = 366 then 1 else 0) + d - 1"
    and "monthStart mn (if daysInYear y = 366 then 1 else 0) + d - 1 < daysInYear y"
  using assms daysInYear_bounds[of y] by (auto simp: monthStart_def)

lemma leap_iff: "daysInYear y = 366 \<longleftrightarrow> isLeapYear y"
  by (auto simp: daysInYear_def isLeapYear_def)

lemma makeDay_parts:
  fixes y m d :: int
  assumes "1 \<le> m" "m \<le> 12" "1 \<le> d" "d \<le> 31"
  shows "yearFromDay (makeDay y (m - 1) d) = y"
    and "dayWithinYear (makeDay y (m - 1) d)
           = monthStart (m - 1) (if daysInYear y = 366 then 1 else 0) + d - 1"
    and "inLeapYear (makeDay y (m - 1) d) = (if daysInYear y = 366 then 1 else 0)"
proof -
  let ?l = "if daysInYear y = 366 then 1 else 0 :: int"
  have dm: "(m - 1) div 12 = 0" "(m - 1) mod 12 = m - 1" using assms(1,2) by simp_all
  have md: "makeDay y (m - 1) d = dayFromYear y + (monthStart (m - 1) ?l + d - 1)"
    by (simp add: makeDay_def dm Let_def)
  have w: "0 \<le> monthStart (m - 1) ?l + d - 1" "monthStart (m - 1) ?l + d - 1 < daysInYear y"
    using monthStart_within[of "m - 1" d y] assms(1-4) by simp_all
  show y: "yearFromDay (makeDay y (m - 1) d) = y"
    unfolding md using yearFromDay_within[OF w] .
  show "dayWithinYear (makeDay y (m - 1) d) = monthStart (m - 1) ?l + d - 1"
    unfolding dayWithinYear_def y by (simp add: md)
  show "inLeapYear (makeDay y (m - 1) d) = ?l"
    unfolding inLeapYear_def y ..
qed

lemma roundtrip_real:
  fixes y m d :: int
  assumes "1 \<le> m" "m \<le> 12" "1 \<le> d" "d \<le> 31"
  shows "monthFromDay (makeDay y (m - 1) d) = m - 1 \<longleftrightarrow> d \<le> daysInMonth y m"
    and "d \<le> daysInMonth y m \<Longrightarrow> dateFromDay (makeDay y (m - 1) d) = d"
proof -
  note p = makeDay_parts[OF assms, of y]
  have l: "daysInYear y = 366 \<longleftrightarrow> isLeapYear y" by (rule leap_iff)
  have "m = 1 \<or> m = 2 \<or> m = 3 \<or> m = 4 \<or> m = 5 \<or> m = 6 \<or> m = 7 \<or> m = 8
      \<or> m = 9 \<or> m = 10 \<or> m = 11 \<or> m = 12"
    using assms(1,2) by presburger
  then have both: "(monthFromDay (makeDay y (m - 1) d) = m - 1 \<longleftrightarrow> d \<le> daysInMonth y m)
     \<and> (d \<le> daysInMonth y m \<longrightarrow> dateFromDay (makeDay y (m - 1) d) = d)"
    using assms(3,4) p(2,3)
    by (elim disjE)
       (simp_all add: monthFromDay_def dateFromDay_def Let_def monthStart_def daysInMonth_def l)
  from both show "monthFromDay (makeDay y (m - 1) d) = m - 1 \<longleftrightarrow> d \<le> daysInMonth y m" by simp
  from both show "d \<le> daysInMonth y m \<Longrightarrow> dateFromDay (makeDay y (m - 1) d) = d" by simp
qed

lemma parseInt_showNat: "parseInt (showNat n) = Some (int n)"
proof -
  let ?s = "showNat n"
  obtain c cs where s: "?s = c # cs" using showNat_nonempty[of n] by (cases ?s) auto
  have c: "isDigit c" using showNat_digits[of n] s by simp
  have dw: "dropWhile isWhiteSpace ?s = ?s" using c s isDigit_not(7) by simp
  have "parseUnsigned ?s = Some n"
    using parseUnsigned_digits[OF showNat_digits showNat_nonempty, of n] digitsValue_showNat[of 0 n]
    by simp
  then show ?thesis
    using c isDigit_not(3,4)[OF c] unfolding parseInt_def dw by (simp add: s)
qed

lemma validateActualDate_None:
  assumes "validateActualDate yearNum monthNum dayNum monthStr day year = None"
  shows "\<exists>y m d. yearNum = Some y \<and> monthNum = Some m \<and> dayNum = Some d
           \<and> monthFromDay (makeDay (if 0 \<le> y \<and> y \<le> 99 then 1900 + y else y) (m - 1) d) = m - 1"
proof -
  let ?t = "newDate yearNum (map_option (\<lambda>m. m - 1) monthNum) dayNum"
  from assms have eq: "strictEquals (getFullYear ?t) yearNum"
      "strictEquals (getMonth ?t) (map_option (\<lambda>m. m - 1) monthNum)"
      "strictEquals (getDate ?t) dayNum"
    by (simp_all add: validateActualDate_def Let_def split: if_splits)
  from eq(1) obtain y where y: "yearNum = Some y"
    by (cases yearNum) (auto simp: strictEquals_def split: option.splits)
  from eq(3) obtain d where d: "dayNum = Some d"
    by (cases dayNum) (auto simp: strictEquals_def split: option.splits)
  from eq(2) obtain m where m: "monthNum = Some m"
    by (cases monthNum) (auto simp: strictEquals_def split: option.splits)
  from eq(2) have "monthFromDay (makeDay (if 0 \<le> y \<and> y \<le> 99 then 1900 + y else y) (m - 1) d) = m - 1"
    by (simp add: y m d strictEquals_def newDate_def getMonth_def)
  with y m d show ?thesis by blast
qed

lemma validateDateComponents_None:
  assumes "validateDateComponents (Some y) (Some m) (Some d) year month day = None"
  shows "1900 \<le> y \<and> y \<le> 3000 \<and> 1 \<le> m \<and> m \<le> 12 \<and> 1 \<le> d \<and> d \<le> 31"
  using assms by (simp add: validateDateComponents_def split: if_splits)

lemma buildDateString_Inr:
  assumes "buildDateString year month day monthStr = Inr out"
  shows "\<exists>y n d. month = MonthNumber n \<and> parseInt year = Some y \<and> parseInt day = Some d
           \<and> 1900 \<le> y \<and> y \<le> 3000 \<and> realDate y (int n) d
           \<and> out = showInt y @ ''-'' @ padStart2 (showNat n) @ ''-'' @ padStart2 (showInt d)"
proof -
  let ?mn = "case month of MonthNumber n \<Rightarrow> parseInt (showNat n) | InheritedProperty \<Rightarrow> None"
  from assms have vc: "validateDateComponents (parseInt year) ?mn (parseInt day) year month day = None"
    and va: "validateActualDate (parseInt year) ?mn (parseInt day) monthStr day year = None"
    and out: "out = showNumber (parseInt year) @ ''-'' @ padStart2 (showNumber ?mn) @ ''-''
                    @ padStart2 (showNumber (parseInt day))"
    by (auto simp: buildDateString_def Let_def split: option.splits)
  from validateActualDate_None[OF va] obtain y m d where
    y: "parseInt year = Some y" and m: "?mn = Some m" and d: "parseInt day = Some d"
    and rt: "monthFromDay (makeDay (if 0 \<le> y \<and> y \<le> 99 then 1900 + y else y) (m - 1) d) = m - 1"
    by blast
  from m obtain n where n: "month = MonthNumber n" and mn: "m = int n"
    by (cases month) (auto simp: parseInt_showNat)
  from vc have b: "1900 \<le> y \<and> y \<le> 3000 \<and> 1 \<le> m \<and> m \<le> 12 \<and> 1 \<le> d \<and> d \<le> 31"
    unfolding y m d by (rule validateDateComponents_None)
  then have rt': "monthFromDay (makeDay y (m - 1) d) = m - 1" using rt by simp
  have "d \<le> daysInMonth y m"
    using roundtrip_real(1)[of m d y] b rt' by simp
  then have real: "realDate y (int n) d" using b mn by (simp add: realDate_def)
  have "out = showInt y @ ''-'' @ padStart2 (showNat n) @ ''-'' @ padStart2 (showInt d)"
    using out y m d mn by (simp add: showNumber_def showInt_def)
  with n y d b real show ?thesis by blast
qed

text \<open>
  Claim C6. When \<open>parseDateString\<close> returns a date, the token has the three groups of the
  pattern, the first is a month name of \<open>getMonthNames\<close> and the year and the day are numbers
  such that the year is from 1900 to 3000 and the day exists in that month of that year, in
  the Gregorian calendar; the date returned is the canonical \<open>YYYY-MM-DD\<close> of these numbers.
  Every other token is answered with an error: a year outside 1900 to 3000, a day that the
  month does not have, which the round trip through \<open>new Date\<close> finds, a month name that
  is only a property inherited by the table. The token \<open>sept-31-2025\<close> is rejected as an
  invalid date.
\<close>

theorem invalid_dates_rejected:
  "(\<forall>out. parseDateString s = Inr out \<longrightarrow>
      (\<exists>monthStr day year y n d.
          matchDatePattern (toLowerCase s) = Some (monthStr, day, year)
          \<and> map_of getMonthNames (toLowerCase monthStr) = Some n
          \<and> parseInt year = Some y \<and> parseInt day = Some d
          \<and> 1900 \<le> y \<and> y \<le> 3000 \<and> realDate y (int n) d
          \<and> out = showInt y @ ''-'' @ padStart2 (showNat n) @ ''-'' @ padStart2 (showInt d)))
   \<and> parseDateString ''sept-31-2025''
       = Inl (InvalidDateValues (InvalidDate ''sept'' ''31'' ''2025''))"
proof (intro conjI allI impI)
  fix out
  assume ok: "parseDateString s = Inr out"
  then obtain monthStr day year where
    mt: "matchDatePattern (toLowerCase s) = Some (monthStr, day, year)"
    by (cases "matchDatePattern (toLowerCase s)") (auto simp: parseDateString_def)
  with ok obtain month where
    lk: "lookupMonth (toLowerCase monthStr) = Some month"
    and bd: "buildDateString year month day monthStr = Inr out"
    by (cases "lookupMonth (toLowerCase monthStr)") (auto simp: parseDateString_def)
  from buildDateString_Inr[OF bd] obtain y n d where
    n: "month = MonthNumber n" and y: "parseInt year = Some y" and d: "parseInt day = Some d"
    and b: "1900 \<le> y" "y \<le> 3000" "realDate y (int n) d"
    and out: "out = showInt y @ ''-'' @ padStart2 (showNat n) @ ''-'' @ padStart2 (showInt d)"
    by blast
  from lk n have "map_of getMonthNames (toLowerCase monthStr) = Some n"
    by (auto simp: lookupMonth_def split: option.splits if_splits)
  with mt y d b out
  show "\<exists>monthStr day year y n d.
          matchDatePattern (toLowerCase s) = Some (monthStr, day, year)
          \<and> map_of getMonthNames (toLowerCase monthStr) = Some n
          \<and> parseInt year = Some y \<and> parseInt day = Some d
          \<and> 1900 \<le> y \<and> y \<le> 3000 \<and> realDate y (int n) d
          \<and> out = showInt y @ ''-'' @ padStart2 (showNat n) @ ''-'' @ padStart2 (showInt d)"
    by blast
next
  show "parseDateString ''sept-31-2025''
       = Inl (InvalidDateValues (InvalidDate ''sept'' ''31'' ''2025''))"
    by code_simp
qed

theorem invalid_dates_rejected_witness:
  "parseDateString ''sept-30-2025'' = Inr ''2025-09-30''
   \<and> (\<exists>monthStr day year y n d.
          matchDatePattern (toLowerCase ''sept-30-2025'') = Some (monthStr, day, year)
          \<and> map_of getMonthNames (toLowerCase monthStr) = Some n
          \<and> parseInt year = Some y \<and> parseInt day = Some d
          \<and> 1900 \<le> y \<and> y \<le> 3000 \<and> realDate y (int n) d
          \<and> ''2025-09-30'' = showInt y @ ''-'' @ padStart2 (showNat n) @ ''-'' @ padStart2 (showInt d))"
proof -
  have p: "parseDateString ''sept-30-2025'' = Inr ''2025-09-30''" by code_simp
  from invalid_dates_rejected[of "''sept-30-2025''"] p show ?thesis by blast
qed

end
